theory Spec2Isabelle
  imports Complex_Main "HOL-Library.Multiset"
begin

section \<open>Data model (utils/storage and the review screen)\<close>

text \<open>
  The records follow the TypeScript interface \<open>SavedRecording\<close> and the object that
  \<open>handleSave\<close> passes to \<open>saveRecording\<close>. An optional property is an \<open>option\<close>:
  \<open>None\<close> is the absent (\<open>undefined\<close>) property, which \<open>JSON.stringify\<close> leaves out.
\<close>

text \<open>
  \<open>createdAt\<close> is the text \<open>new Date().toISOString()\<close>. The platform's \<open>Date\<close> is not
  code of the repository: the text is kept as the instant it denotes (milliseconds since
  the epoch), \<open>toISOString\<close> builds it and \<open>getTime\<close> (of \<open>new Date(text)\<close>) reads
  it back.
\<close>

datatype isodate = ISODate int

fun getTime :: "isodate \<Rightarrow> int" where
  "getTime (ISODate t) = t"

definition toISOString :: "int \<Rightarrow> isodate" where
  "toISOString t = ISODate t"

record ActionablePoint =
  point_id :: string
  point_title :: string
  point_description :: string
  point_priority :: string
  point_category :: string
  point_dueDate :: string
  point_assignee :: string
  point_status :: string

record Transcription =
  fullText :: string
  words :: "string list"
  bullets :: "string list"
  summary_bullets :: "string list"
  topics :: "string list"

text \<open>The argument of \<open>saveRecording\<close>: a recording without \<open>id\<close> and \<open>createdAt\<close>.\<close>

record RecordingData =
  title :: string
  audioUri :: string
  audioDuration :: int
  transcription :: "Transcription option"
  actionablePoints :: "ActionablePoint list option"

record SavedRecording = RecordingData +
  rec_id :: string
  createdAt :: isodate

section \<open>Number.prototype.toString on an integer\<close>

text \<open>
  \<open>Date.now().toString()\<close>: the decimal text of an integer, with a minus sign for a
  negative one (the clock's range is far below the size where JavaScript switches to
  exponent notation).
\<close>

fun digits10 :: "nat \<Rightarrow> string" where
  "digits10 n =
     (if n < 10 then [char_of (48 + n)]
      else digits10 (n div 10) @ [char_of (48 + n mod 10)])"

declare digits10.simps [simp del]

definition Number_toString :: "int \<Rightarrow> string" where
  "Number_toString i =
     (if i < 0 then CHR ''-'' # digits10 (nat (- i)) else digits10 (nat i))"

section \<open>The key-value store and JSON\<close>

datatype error =
  StorageError
  | SyntaxError
  | TypeError
  | FileError
  | LoadError
  | NotLoadedError
  | RecordingError
  | NetworkError
  | HttpError

text \<open>
  The text under the one key \<open>saved_recordings\<close>, by what \<open>JSON.parse\<close> makes of it:
  a text it rejects (the empty text is one), the text \<open>JSON.stringify\<close> writes for an
  array of recordings, or the text of a value that is no array and cannot be iterated
  (\<open>null\<close>, a number, a boolean, an object).
\<close>

datatype stored_text =
  NotJson string
  | JsonRecordings "SavedRecording list"
  | JsonNonArray

datatype parsed =
  Recordings "SavedRecording list"
  | NonArray

fun JSON_parse :: "stored_text \<Rightarrow> error + parsed" where
  "JSON_parse (NotJson s) = Inl SyntaxError"
| "JSON_parse (JsonRecordings rs) = Inr (Recordings rs)"
| "JSON_parse JsonNonArray = Inr NonArray"

definition JSON_stringify :: "SavedRecording list \<Rightarrow> stored_text" where
  "JSON_stringify rs = JsonRecordings rs"

text \<open>JavaScript truthiness of \<open>string | null\<close>: \<open>null\<close> and the empty text are falsy.\<close>

fun truthy :: "stored_text option \<Rightarrow> bool" where
  "truthy None = False"
| "truthy (Some (NotJson s)) = (s \<noteq> [])"
| "truthy (Some t) = True"

text \<open>
  AsyncStorage, as the one item the application keeps in it. A device whose storage
  cannot be read or written makes \<open>getItem\<close> or \<open>setItem\<close> reject.
\<close>

record AsyncStorage =
  saved_recordings :: "stored_text option"
  read_fails :: bool
  write_fails :: bool

definition getItem :: "AsyncStorage \<Rightarrow> error + stored_text option" where
  "getItem st = (if read_fails st then Inl StorageError else Inr (saved_recordings st))"

definition setItem :: "stored_text \<Rightarrow> AsyncStorage \<Rightarrow> error + AsyncStorage" where
  "setItem txt st =
     (if write_fails st then Inl StorageError
      else Inr (st\<lparr>saved_recordings := Some txt\<rparr>))"

section \<open>Array.prototype.sort with a comparator\<close>

text \<open>
  A stable sort: an element goes before the first element of the sorted rest that the
  comparator does not put before it. For a consistent comparator every stable sort gives
  this list.
\<close>

fun place :: "('a \<Rightarrow> 'a \<Rightarrow> int) \<Rightarrow> 'a \<Rightarrow> 'a list \<Rightarrow> 'a list" where
  "place cmp x [] = [x]"
| "place cmp x (y # ys) =
     (if cmp x y \<le> 0 then x # y # ys else y # place cmp x ys)"

fun Array_sort :: "('a \<Rightarrow> 'a \<Rightarrow> int) \<Rightarrow> 'a list \<Rightarrow> 'a list" where
  "Array_sort cmp [] = []"
| "Array_sort cmp (x # xs) = place cmp x (Array_sort cmp xs)"

section \<open>utils/storage\<close>

text \<open>The comparator of \<open>getRecordings\<close>: most recent first.\<close>

definition byCreatedAtDesc :: "SavedRecording \<Rightarrow> SavedRecording \<Rightarrow> int" where
  "byCreatedAtDesc a b = getTime (createdAt b) - getTime (createdAt a)"

text \<open>The object literal \<open>{ id, createdAt, ...recording }\<close>.\<close>

definition newSavedRecording :: "string \<Rightarrow> isodate \<Rightarrow> RecordingData \<Rightarrow> SavedRecording" where
  "newSavedRecording id' createdAt' recording =
     \<lparr>title = title recording, audioUri = audioUri recording,
      audioDuration = audioDuration recording,
      transcription = transcription recording,
      actionablePoints = actionablePoints recording,
      rec_id = id', createdAt = createdAt'\<rparr>"

text \<open>
  \<open>saveRecording\<close> reads the clock twice: \<open>now_id\<close> is what \<open>Date.now()\<close> returns for
  the id, \<open>now_created\<close> what \<open>new Date()\<close> holds for \<open>createdAt\<close>. The result is the
  promise's outcome and the store as the call leaves it. Every error is rethrown. The
  stored text is parsed only when it is truthy; a parsed value that cannot be spread
  into the new array raises a TypeError.
\<close>

definition saveRecording ::
  "int \<Rightarrow> int \<Rightarrow> RecordingData \<Rightarrow> AsyncStorage \<Rightarrow> (error + SavedRecording) \<times> AsyncStorage" where
  "saveRecording now_id now_created recording st =
     (let id' = Number_toString now_id;
          createdAt' = toISOString now_created;
          savedRecording = newSavedRecording id' createdAt' recording
      in case getItem st of
           Inl e \<Rightarrow> (Inl e, st)
         | Inr recordingsJson \<Rightarrow>
             (case (case recordingsJson of
                      None \<Rightarrow> Inr []
                    | Some txt \<Rightarrow>
                        if \<not> truthy recordingsJson then Inr []
                        else (case JSON_parse txt of
                                Inl e \<Rightarrow> Inl e
                              | Inr (Recordings rs) \<Rightarrow> Inr rs
                              | Inr NonArray \<Rightarrow> Inl TypeError)) of
                Inl e \<Rightarrow> (Inl e, st)
              | Inr existingRecordings \<Rightarrow>
                  (case setItem (JSON_stringify (savedRecording # existingRecordings)) st of
                     Inl e \<Rightarrow> (Inl e, st)
                   | Inr st' \<Rightarrow>
                       (case getItem st' of
                          Inl e \<Rightarrow> (Inl e, st')
                        | Inr verifyJson \<Rightarrow> (Inr savedRecording, st')))))"

text \<open>
  \<open>getRecordings\<close>: the body of the \<open>try\<close>, and the function with its \<open>catch\<close>, which
  turns every error into the empty list.
\<close>

definition getRecordings_body :: "AsyncStorage \<Rightarrow> error + SavedRecording list" where
  "getRecordings_body st =
     (case getItem st of
        Inl e \<Rightarrow> Inl e
      | Inr recordingsJson \<Rightarrow>
          (case recordingsJson of
             None \<Rightarrow> Inr []
           | Some txt \<Rightarrow>
               if \<not> truthy recordingsJson then Inr []
               else (case JSON_parse txt of
                       Inl e \<Rightarrow> Inl e
                     | Inr (Recordings rs) \<Rightarrow> Inr (Array_sort byCreatedAtDesc rs)
                     | Inr NonArray \<Rightarrow> Inl TypeError)))"

definition getRecordings :: "AsyncStorage \<Rightarrow> error + SavedRecording list" where
  "getRecordings st =
     (case getRecordings_body st of
        Inl e \<Rightarrow> Inr []
      | Inr sortedRecordings \<Rightarrow> Inr sortedRecordings)"

section \<open>The file system (expo-file-system)\<close>

text \<open>
  A file holds audio that the player can load, with the duration its status reports
  (\<open>None\<close> when the status has no \<open>durationMillis\<close>), or something the player rejects.
  A path in \<open>write_protected\<close> cannot be created, overwritten or deleted. With the
  option \<open>idempotent\<close>, deleting a file that does not exist is no error.
\<close>

datatype blob = Audio "int option" | Unplayable

record FileSystem =
  files :: "string \<rightharpoonup> blob"
  write_protected :: "string set"

definition copyAsync :: "string \<Rightarrow> string \<Rightarrow> FileSystem \<Rightarrow> error + FileSystem" where
  "copyAsync from to fs =
     (case files fs from of
        None \<Rightarrow> Inl FileError
      | Some b \<Rightarrow>
          if to \<in> write_protected fs then Inl FileError
          else Inr (fs\<lparr>files := (files fs)(to \<mapsto> b)\<rparr>))"

definition deleteAsync :: "string \<Rightarrow> bool \<Rightarrow> FileSystem \<Rightarrow> error + FileSystem" where
  "deleteAsync uri idempotent fs =
     (case files fs uri of
        None \<Rightarrow> if idempotent then Inr fs else Inl FileError
      | Some b \<Rightarrow>
          if uri \<in> write_protected fs then Inl FileError
          else Inr (fs\<lparr>files := (files fs)(uri := None)\<rparr>))"

section \<open>deleteRecording\<close>

text \<open>
  The audio file of the first recording with the id is deleted, an error of that
  deletion is only logged; then the collection without the recordings of that id is
  written. An error of the write is rethrown; the file stays deleted.
\<close>

definition deleteRecording ::
  "string \<Rightarrow> AsyncStorage \<Rightarrow> FileSystem \<Rightarrow> (error + unit) \<times> AsyncStorage \<times> FileSystem" where
  "deleteRecording id' st fs =
     (case getRecordings st of
        Inl e \<Rightarrow> (Inl e, st, fs)
      | Inr recordings \<Rightarrow>
          (let fs' = (case find (\<lambda>r. rec_id r = id') recordings of
                        None \<Rightarrow> fs
                      | Some recordingToDelete \<Rightarrow>
                          (case deleteAsync (audioUri recordingToDelete) True fs of
                             Inl fileError \<Rightarrow> fs
                           | Inr fs1 \<Rightarrow> fs1));
               updatedRecordings = filter (\<lambda>r. rec_id r \<noteq> id') recordings
           in case setItem (JSON_stringify updatedRecordings) st of
                Inl e \<Rightarrow> (Inl e, st, fs')
              | Inr st' \<Rightarrow> (Inr (), st', fs')))"

text \<open>A sequence of \<open>saveRecording\<close> calls, each with its two clock readings.\<close>

fun saveAll :: "(int \<times> int \<times> RecordingData) list \<Rightarrow> AsyncStorage \<Rightarrow> AsyncStorage" where
  "saveAll [] st = st"
| "saveAll ((now_id, now_created, recording) # calls) st =
     saveAll calls (snd (saveRecording now_id now_created recording st))"

section \<open>Facts about the decimal text\<close>

definition undigits :: "string \<Rightarrow> nat" where
  "undigits s = foldl (\<lambda>a c. 10 * a + (of_char c - 48)) 0 s"

lemma undigits_digits10: "undigits (digits10 n) = n"
proof (induction n rule: digits10.induct)
  case (1 n)
  show ?case
  proof (cases "n < 10")
    case True
    then show ?thesis by (subst digits10.simps) (simp add: undigits_def)
  next
    case False
    with 1 have "undigits (digits10 (n div 10)) = n div 10" by simp
    with False show ?thesis
      by (subst digits10.simps) (simp add: undigits_def)
  qed
qed

lemma digits10_no_minus: "CHR ''-'' \<notin> set (digits10 n)"
proof (induction n rule: digits10.induct)
  case (1 n)
  have d: "char_of (48 + k) \<noteq> CHR ''-''" if "k < 10" for k :: nat
  proof
    assume "char_of (48 + k) = CHR ''-''"
    then have "of_char (char_of (48 + k)) = (of_char (CHR ''-'') :: nat)" by simp
    with that show False by simp
  qed
  show ?case
  proof (cases "n < 10")
    case True
    then show ?thesis using d[of n] by (subst digits10.simps) simp
  next
    case False
    with 1 have "CHR ''-'' \<notin> set (digits10 (n div 10))" by simp
    with False show ?thesis using d[of "n mod 10"]
      by (subst digits10.simps) simp
  qed
qed

lemma digits10_nonempty: "digits10 n \<noteq> []"
  by (subst digits10.simps) simp

lemma digits10_inj: "digits10 m = digits10 n \<Longrightarrow> m = n"
  by (metis undigits_digits10)

lemma Number_toString_inj: "Number_toString i = Number_toString j \<longleftrightarrow> i = j"
proof
  assume eq: "Number_toString i = Number_toString j"
  have hd_pos: "hd (digits10 k) \<noteq> CHR ''-''" for k
    using digits10_no_minus[of k] digits10_nonempty[of k] by (cases "digits10 k") auto
  show "i = j"
  proof (cases "i < 0"; cases "j < 0")
    assume "i < 0" "j < 0"
    with eq have "digits10 (nat (- i)) = digits10 (nat (- j))"
      by (simp add: Number_toString_def)
    then have "nat (- i) = nat (- j)" by (rule digits10_inj)
    with \<open>i < 0\<close> \<open>j < 0\<close> show ?thesis by simp
  next
    assume "i < 0" "\<not> j < 0"
    with eq have "CHR ''-'' # digits10 (nat (- i)) = digits10 (nat j)"
      by (simp add: Number_toString_def)
    then have "hd (digits10 (nat j)) = CHR ''-''" by (metis list.sel(1))
    with hd_pos show ?thesis by blast
  next
    assume "\<not> i < 0" "j < 0"
    with eq have "digits10 (nat i) = CHR ''-'' # digits10 (nat (- j))"
      by (simp add: Number_toString_def)
    then have "hd (digits10 (nat i)) = CHR ''-''" by (metis list.sel(1))
    with hd_pos show ?thesis by blast
  next
    assume "\<not> i < 0" "\<not> j < 0"
    with eq have "digits10 (nat i) = digits10 (nat j)"
      by (simp add: Number_toString_def)
    then have "nat i = nat j" by (rule digits10_inj)
    with \<open>\<not> i < 0\<close> \<open>\<not> j < 0\<close> show ?thesis by simp
  qed
qed simp

section \<open>Facts about the sort\<close>

lemma set_place: "set (place cmp x xs) = insert x (set xs)"
  by (induction xs) auto

lemma set_Array_sort: "set (Array_sort cmp xs) = set xs"
  by (induction xs) (auto simp: set_place)

lemma mset_place: "mset (place cmp x xs) = add_mset x (mset xs)"
  by (induction xs) auto

lemma mset_Array_sort: "mset (Array_sort cmp xs) = mset xs"
  by (induction xs) (auto simp: mset_place)

lemma desc_place:
  "sorted_wrt (\<lambda>a b. getTime (createdAt b) \<le> getTime (createdAt a)) xs \<Longrightarrow>
   sorted_wrt (\<lambda>a b. getTime (createdAt b) \<le> getTime (createdAt a)) (place byCreatedAtDesc x xs)"
  by (induction xs) (auto simp: set_place byCreatedAtDesc_def)

lemma desc_Array_sort:
  "sorted_wrt (\<lambda>a b. getTime (createdAt b) \<le> getTime (createdAt a)) (Array_sort byCreatedAtDesc xs)"
  by (induction xs) (auto simp: desc_place)

lemma strict_desc:
  "sorted_wrt (\<lambda>a b. getTime (createdAt b) \<le> getTime (createdAt a)) xs \<Longrightarrow>
   distinct (map (\<lambda>r. getTime (createdAt r)) xs) \<Longrightarrow>
   sorted_wrt (\<lambda>a b. getTime (createdAt b) < getTime (createdAt a)) xs"
proof (induction xs)
  case Nil
  then show ?case by simp
next
  case (Cons a xs)
  have "getTime (createdAt b) < getTime (createdAt a)" if "b \<in> set xs" for b
  proof -
    from Cons.prems(1) that have "getTime (createdAt b) \<le> getTime (createdAt a)" by simp
    moreover from Cons.prems(2)
    have "getTime (createdAt a) \<notin> (\<lambda>r. getTime (createdAt r)) ` set xs" by simp
    with that have "getTime (createdAt b) \<noteq> getTime (createdAt a)"
      by (metis imageI)
    ultimately show ?thesis by simp
  qed
  with Cons show ?case by simp
qed

lemma distinct_Array_sort:
  "distinct (map f (Array_sort cmp xs)) = distinct (map f xs)"
proof -
  have "mset (map f (Array_sort cmp xs)) = mset (map f xs)"
    by (simp add: mset_Array_sort)
  then show ?thesis by (rule mset_eq_imp_distinct_iff)
qed

section \<open>Facts about the store\<close>

text \<open>
  For the proofs: a store that reads and writes, the collection a store holds, and a
  store whose item is absent or a collection.
\<close>

definition healthy :: "AsyncStorage \<Rightarrow> bool" where
  "healthy st = (\<not> read_fails st \<and> \<not> write_fails st)"

fun collection :: "AsyncStorage \<Rightarrow> SavedRecording list" where
  "collection st = (case saved_recordings st of Some (JsonRecordings rs) \<Rightarrow> rs | _ \<Rightarrow> [])"

definition holds_collection :: "AsyncStorage \<Rightarrow> bool" where
  "holds_collection st =
     (case saved_recordings st of
        None \<Rightarrow> True
      | Some (JsonRecordings rs) \<Rightarrow> True
      | _ \<Rightarrow> False)"

lemma saveRecording_id:
  "saveRecording t c d st = (Inr r, st') \<Longrightarrow> rec_id r = Number_toString t"
  by (auto simp: saveRecording_def newSavedRecording_def Let_def
      split: sum.splits option.splits if_splits parsed.splits)

lemma saveRecording_healthy:
  assumes "healthy st" "holds_collection st"
  shows "saveRecording i c d st =
    (Inr (newSavedRecording (Number_toString i) (toISOString c) d),
     st\<lparr>saved_recordings := Some (JsonRecordings
       (newSavedRecording (Number_toString i) (toISOString c) d # collection st))\<rparr>)"
  using assms
  by (auto simp: saveRecording_def healthy_def holds_collection_def getItem_def setItem_def
      JSON_stringify_def Let_def split: option.splits stored_text.splits)

lemma saveRecording_unhealthy:
  assumes "\<not> healthy st"
  shows "snd (saveRecording i c d st) = st"
  using assms
  by (auto simp: saveRecording_def healthy_def getItem_def setItem_def
      JSON_stringify_def Let_def split: option.splits stored_text.splits sum.splits parsed.splits)

lemma saveAll_unhealthy: "\<not> healthy st \<Longrightarrow> saveAll calls st = st"
  by (induction calls st rule: saveAll.induct) (auto simp: saveRecording_unhealthy)

lemma saveAll_healthy:
  "healthy st \<Longrightarrow> holds_collection st \<Longrightarrow>
   saveAll calls st = st\<lparr>saved_recordings :=
     (if calls = [] then saved_recordings st else
      Some (JsonRecordings (rev (map (\<lambda>(i, c, d).
        newSavedRecording (Number_toString i) (toISOString c) d) calls) @ collection st)))\<rparr>"
proof (induction calls st rule: saveAll.induct)
  case (1 st)
  then show ?case by simp
next
  case (2 i c d calls st)
  let ?st = "snd (saveRecording i c d st)"
  have h: "healthy ?st" "holds_collection ?st"
    using 2(2,3) by (simp_all add: saveRecording_healthy healthy_def holds_collection_def)
  have "collection ?st = newSavedRecording (Number_toString i) (toISOString c) d # collection st"
    using 2(2,3) by (simp add: saveRecording_healthy)
  with 2(1)[OF h] 2(2,3) show ?case
    by (simp add: saveRecording_healthy)
qed

lemma getRecordings_total: "\<exists>rs. getRecordings st = Inr rs"
  by (simp add: getRecordings_def split: sum.split)

lemma getRecordings_absent: "saved_recordings st = None \<Longrightarrow> getRecordings st = Inr []"
  by (simp add: getRecordings_def getRecordings_body_def getItem_def)

lemma getRecordings_read_fails: "read_fails st \<Longrightarrow> getRecordings st = Inr []"
  by (simp add: getRecordings_def getRecordings_body_def getItem_def)

lemma getRecordings_NotJson:
  "saved_recordings st = Some (NotJson s) \<Longrightarrow> getRecordings st = Inr []"
  by (simp add: getRecordings_def getRecordings_body_def getItem_def)

lemma getRecordings_stored:
  "\<not> read_fails st \<Longrightarrow> saved_recordings st = Some (JsonRecordings rs) \<Longrightarrow>
   getRecordings st = Inr (Array_sort byCreatedAtDesc rs)"
  by (simp add: getRecordings_def getRecordings_body_def getItem_def)

lemma getRecordings_subset:
  assumes "getRecordings st = Inr rs"
  shows "set rs \<subseteq> set (collection st)"
proof (cases "saved_recordings st")
  case None
  with assms show ?thesis
    by (cases "read_fails st") (auto simp: getRecordings_def getRecordings_body_def getItem_def)
next
  case (Some stored)
  with assms show ?thesis
    by (cases stored; cases "read_fails st")
      (auto simp: getRecordings_def getRecordings_body_def getItem_def set_Array_sort
        split: if_splits)
qed

section \<open>Example inputs\<close>

definition fresh :: AsyncStorage where
  "fresh = \<lparr>saved_recordings = None, read_fails = False, write_fails = False\<rparr>"

definition standup :: RecordingData where
  "standup = \<lparr>title = ''Standup'', audioUri = ''file://a.m4a'', audioDuration = 65000,
     transcription = None, actionablePoints = None\<rparr>"

definition retro :: RecordingData where
  "retro = \<lparr>title = ''Retro'', audioUri = ''file://b.m4a'', audioDuration = 3000,
     transcription = None, actionablePoints = None\<rparr>"

definition three_saves :: "(int \<times> int \<times> RecordingData) list" where
  "three_saves = [(1000, 1000, standup), (3000, 3001, retro), (2000, 2002, standup)]"

lemma Number_toString_1700000000000: "Number_toString 1700000000000 = ''1700000000000''"
  by (simp add: Number_toString_def digits10.simps char_of_def bit_Suc_0_iff)

lemma Number_toString_1700000000001: "Number_toString 1700000000001 = ''1700000000001''"
  by (simp add: Number_toString_def digits10.simps char_of_def bit_Suc_0_iff)

lemma healthy_fresh: "healthy fresh" "holds_collection fresh" "collection fresh = []"
  by (simp_all add: healthy_def holds_collection_def fresh_def)

lemma first_save:
  "saveRecording 1700000000000 1700000000000 standup fresh =
     (Inr (newSavedRecording ''1700000000000'' (ISODate 1700000000000) standup),
      fresh\<lparr>saved_recordings := Some (JsonRecordings
        [newSavedRecording ''1700000000000'' (ISODate 1700000000000) standup])\<rparr>)"
  unfolding saveRecording_healthy[OF healthy_fresh(1,2)] healthy_fresh(3)
    Number_toString_1700000000000 toISOString_def ..

lemma second_save:
  assumes "st = fresh\<lparr>saved_recordings := Some (JsonRecordings rs)\<rparr>"
  shows "saveRecording t c retro st =
     (Inr (newSavedRecording (Number_toString t) (ISODate c) retro),
      st\<lparr>saved_recordings := Some (JsonRecordings
        (newSavedRecording (Number_toString t) (ISODate c) retro # rs))\<rparr>)"
proof -
  have h: "healthy st" "holds_collection st" and c: "collection st = rs"
    using assms by (simp_all add: healthy_def holds_collection_def fresh_def)
  show ?thesis
    unfolding saveRecording_healthy[OF h] c toISOString_def ..
qed

section \<open>Identifiers of saved recordings\<close>

text \<open>
  Claim C1, as the code has it: the id that \<open>saveRecording\<close> returns is the decimal text
  of the millisecond its \<open>Date.now()\<close> read, so two calls that complete return different
  ids exactly when those readings differ. Nothing else enters the id.
\<close>

theorem saveRecording_ids_differ_iff_clock_differs:
  assumes "saveRecording t1 c1 d1 st1 = (Inr r1, st1')"
    and "saveRecording t2 c2 d2 st2 = (Inr r2, st2')"
  shows "rec_id r1 \<noteq> rec_id r2 \<longleftrightarrow> t1 \<noteq> t2"
proof -
  from assms(1) have "rec_id r1 = Number_toString t1" by (rule saveRecording_id)
  moreover from assms(2) have "rec_id r2 = Number_toString t2" by (rule saveRecording_id)
  ultimately show ?thesis by (simp only: Number_toString_inj)
qed

theorem saveRecording_ids_differ_witness:
  "saveRecording 1700000000000 1700000000000 standup fresh =
     (Inr (newSavedRecording ''1700000000000'' (ISODate 1700000000000) standup),
      fresh\<lparr>saved_recordings := Some (JsonRecordings
        [newSavedRecording ''1700000000000'' (ISODate 1700000000000) standup])\<rparr>)
   \<and> fst (saveRecording 1700000000001 1700000000001 retro
        (fresh\<lparr>saved_recordings := Some (JsonRecordings
          [newSavedRecording ''1700000000000'' (ISODate 1700000000000) standup])\<rparr>)) =
      Inr (newSavedRecording ''1700000000001'' (ISODate 1700000000001) retro)
   \<and> rec_id (newSavedRecording ''1700000000000'' (ISODate 1700000000000) standup) \<noteq>
     rec_id (newSavedRecording ''1700000000001'' (ISODate 1700000000001) retro)"
proof -
  let ?st = "fresh\<lparr>saved_recordings := Some (JsonRecordings
        [newSavedRecording ''1700000000000'' (ISODate 1700000000000) standup])\<rparr>"
  note second = second_save[of ?st _ 1700000000001 1700000000001, OF refl,
      unfolded Number_toString_1700000000001]
  have "(1700000000000::int) \<noteq> 1700000000001" by simp
  with saveRecording_ids_differ_iff_clock_differs[OF first_save second]
  show ?thesis using first_save second by simp
qed

text \<open>
  Claim C1 as stated, that any two calls return different ids, fails for two calls in
  the same millisecond: both complete, the second on the store the first has written,
  and both records carry the id \<open>1700000000000\<close>.
\<close>

theorem saveRecording_same_millisecond_same_id:
  "fst (saveRecording 1700000000000 1700000000000 standup fresh) =
     Inr \<lparr>title = ''Standup'', audioUri = ''file://a.m4a'', audioDuration = 65000,
          transcription = None, actionablePoints = None,
          rec_id = ''1700000000000'', createdAt = ISODate 1700000000000\<rparr>
   \<and> fst (saveRecording 1700000000000 1700000000000 retro
         (snd (saveRecording 1700000000000 1700000000000 standup fresh))) =
     Inr \<lparr>title = ''Retro'', audioUri = ''file://b.m4a'', audioDuration = 3000,
          transcription = None, actionablePoints = None,
          rec_id = ''1700000000000'', createdAt = ISODate 1700000000000\<rparr>"
proof -
  have a: "newSavedRecording ''1700000000000'' (ISODate 1700000000000) standup =
     \<lparr>title = ''Standup'', audioUri = ''file://a.m4a'', audioDuration = 65000,
          transcription = None, actionablePoints = None,
          rec_id = ''1700000000000'', createdAt = ISODate 1700000000000\<rparr>"
    by (simp add: newSavedRecording_def standup_def)
  have b: "newSavedRecording ''1700000000000'' (ISODate 1700000000000) retro =
     \<lparr>title = ''Retro'', audioUri = ''file://b.m4a'', audioDuration = 3000,
          transcription = None, actionablePoints = None,
          rec_id = ''1700000000000'', createdAt = ISODate 1700000000000\<rparr>"
    by (simp add: newSavedRecording_def retro_def)
  show ?thesis
    unfolding first_save fst_conv snd_conv second_save[OF refl] Number_toString_1700000000000 a b
    by simp
qed

section \<open>Listing the recordings\<close>

text \<open>
  Claim C2: after any sequence of \<open>saveRecording\<close> calls on a store that held nothing,
  with pairwise distinct \<open>createdAt\<close> instants, \<open>getRecordings\<close> resolves to a list in
  strictly descending \<open>createdAt\<close> order; on a store that reads and writes the list is
  a permutation of the records the calls returned.
\<close>

theorem getRecordings_strictly_descending:
  assumes "saved_recordings st = None"
    and "distinct (map (\<lambda>(now_id, now_created, recording). now_created) calls)"
  shows "\<exists>rs. getRecordings (saveAll calls st) = Inr rs \<and>
      sorted_wrt (\<lambda>a b. getTime (createdAt b) < getTime (createdAt a)) rs \<and>
      mset rs = (if read_fails st \<or> write_fails st then {#} else
         mset (map (\<lambda>(now_id, now_created, recording).
            newSavedRecording (Number_toString now_id) (toISOString now_created) recording) calls))"
proof (cases "healthy st")
  case False
  then have "saveAll calls st = st" by (rule saveAll_unhealthy)
  moreover have "getRecordings st = Inr []" using assms(1) by (rule getRecordings_absent)
  ultimately show ?thesis using False by (simp add: healthy_def)
next
  case True
  let ?mk = "\<lambda>(now_id, now_created, recording).
            newSavedRecording (Number_toString now_id) (toISOString now_created) recording"
  let ?rs = "rev (map ?mk calls)"
  have hc: "holds_collection st" using assms(1) by (simp add: holds_collection_def)
  show ?thesis
  proof (cases "calls = []")
    case True
    then show ?thesis using assms(1) by (simp add: getRecordings_absent)
  next
    case False
    have st: "saveAll calls st = st\<lparr>saved_recordings := Some (JsonRecordings ?rs)\<rparr>"
      using saveAll_healthy[OF True hc, of calls] False assms(1) by simp
    have g: "getRecordings (saveAll calls st) = Inr (Array_sort byCreatedAtDesc ?rs)"
      using True by (simp add: st getRecordings_stored healthy_def)
    have "map (\<lambda>r. getTime (createdAt r)) ?rs =
        rev (map (\<lambda>(now_id, now_created, recording). now_created) calls)"
      by (simp add: rev_map[symmetric] newSavedRecording_def toISOString_def split_def comp_def)
    with assms(2) have "distinct (map (\<lambda>r. getTime (createdAt r)) ?rs)" by simp
    then have "distinct (map (\<lambda>r. getTime (createdAt r)) (Array_sort byCreatedAtDesc ?rs))"
      by (simp only: distinct_Array_sort)
    with desc_Array_sort
    have "sorted_wrt (\<lambda>a b. getTime (createdAt b) < getTime (createdAt a))
        (Array_sort byCreatedAtDesc ?rs)"
      by (rule strict_desc)
    with g True show ?thesis
      by (simp add: mset_Array_sort healthy_def)
  qed
qed

theorem getRecordings_strictly_descending_witness:
  "saved_recordings fresh = None
   \<and> distinct (map (\<lambda>(now_id, now_created, recording). now_created) three_saves)
   \<and> (\<exists>rs. getRecordings (saveAll three_saves fresh) = Inr rs \<and>
        sorted_wrt (\<lambda>a b. getTime (createdAt b) < getTime (createdAt a)) rs \<and>
        mset rs = mset (map (\<lambda>(now_id, now_created, recording).
            newSavedRecording (Number_toString now_id) (toISOString now_created) recording)
            three_saves))"
proof -
  have a: "saved_recordings fresh = None" by (simp add: fresh_def)
  have b: "distinct (map (\<lambda>(now_id, now_created, recording). now_created) three_saves)"
    by (simp add: three_saves_def)
  have c: "\<not> (read_fails fresh \<or> write_fails fresh)" by (simp add: fresh_def)
  from getRecordings_strictly_descending[OF a b] a b c show ?thesis by simp
qed

text \<open>
  Claim C3: when the read of the store fails, or nothing is stored under the key, or the
  stored text is not JSON, \<open>getRecordings\<close> resolves to the empty list; it does not
  reject.
\<close>

theorem getRecordings_empty_when_missing_or_malformed:
  assumes "read_fails st \<or> saved_recordings st = None \<or>
      (\<exists>s. saved_recordings st = Some (NotJson s))"
  shows "getRecordings st = Inr []"
proof -
  from assms consider "read_fails st" | "saved_recordings st = None"
    | s where "saved_recordings st = Some (NotJson s)"
    by auto
  then show ?thesis
  proof cases
    case 1
    then show ?thesis by (rule getRecordings_read_fails)
  next
    case 2
    then show ?thesis by (rule getRecordings_absent)
  next
    case 3
    then show ?thesis by (rule getRecordings_NotJson)
  qed
qed

theorem getRecordings_empty_when_missing_or_malformed_witness:
  "getRecordings \<lparr>saved_recordings = Some (NotJson ''[{oops''),
      read_fails = False, write_fails = False\<rparr> = Inr []
   \<and> getRecordings \<lparr>saved_recordings = None, read_fails = False, write_fails = False\<rparr> = Inr []
   \<and> getRecordings \<lparr>saved_recordings = Some (JsonRecordings []),
      read_fails = True, write_fails = False\<rparr> = Inr []"
  using getRecordings_empty_when_missing_or_malformed[of
      "\<lparr>saved_recordings = Some (NotJson ''[{oops''), read_fails = False, write_fails = False\<rparr>"]
    getRecordings_empty_when_missing_or_malformed[of
      "\<lparr>saved_recordings = None, read_fails = False, write_fails = False\<rparr>"]
    getRecordings_empty_when_missing_or_malformed[of
      "\<lparr>saved_recordings = Some (JsonRecordings []), read_fails = True, write_fails = False\<rparr>"]
  by simp

section \<open>Deleting a recording\<close>


definition one_file :: FileSystem where
  "one_file = \<lparr>files = [''file://a.m4a'' \<mapsto> Audio (Some 65000)], write_protected = {}\<rparr>"






text \<open>
  When the store cannot be read, \<open>getRecordings\<close> lists nothing: \<open>deleteRecording\<close> then
  touches no file and writes the empty list over the stored recordings.
\<close>

lemma deleteRecording_when_read_fails:
  "read_fails st \<Longrightarrow>
   deleteRecording X st fs =
     (if write_fails st then Inl StorageError else Inr (),
      if write_fails st then st else st\<lparr>saved_recordings := Some (JsonRecordings [])\<rparr>,
      fs)"
  by (simp add: deleteRecording_def getRecordings_read_fails setItem_def JSON_stringify_def)







section \<open>The review screen\<close>

text \<open>
  The transcription service's reply as the screen keeps it (\<open>currentServerResult\<close>);
  a property that may be missing is an \<open>option\<close>.
\<close>

record ServerResult =
  ok :: bool
  full_text :: "string option"
  res_words :: "string list option"
  res_bullets :: "string list option"
  res_summary_bullets :: "string list option"
  res_topics :: "string list option"

text \<open>
  A loaded \<open>Audio.Sound\<close> with the status the player reports, and the calls made on it
  in order. The volume is in percent. A sound that is not loaded reports a status without
  position, duration and flags, and rejects every call but \<open>getStatusAsync\<close>.
\<close>

datatype sound_call =
  GetStatus
  | Pause
  | Play
  | SetPosition int
  | SetVolume nat
  | SetIsMuted bool

record Sound =
  isLoaded :: bool
  positionMillis :: int
  durationMillis :: "int option"
  playing :: bool
  didJustFinish :: bool
  volume :: nat
  isMuted :: bool
  calls :: "sound_call list"

definition getStatusAsync :: "Sound \<Rightarrow> Sound" where
  "getStatusAsync s = s\<lparr>calls := calls s @ [GetStatus]\<rparr>"

definition pauseAsync :: "Sound \<Rightarrow> error + Sound" where
  "pauseAsync s =
     (if isLoaded s then Inr (s\<lparr>playing := False, calls := calls s @ [Pause]\<rparr>)
      else Inl NotLoadedError)"

definition playAsync :: "Sound \<Rightarrow> error + Sound" where
  "playAsync s =
     (if isLoaded s
      then Inr (s\<lparr>playing := True, didJustFinish := False, calls := calls s @ [Play]\<rparr>)
      else Inl NotLoadedError)"

text \<open>The player keeps the position within the track.\<close>

definition setPositionAsync :: "int \<Rightarrow> Sound \<Rightarrow> error + Sound" where
  "setPositionAsync p s =
     (if isLoaded s
      then Inr (s\<lparr>positionMillis :=
                    (case durationMillis s of
                       None \<Rightarrow> max 0 p
                     | Some d \<Rightarrow> max 0 (min d p)),
                  didJustFinish := False,
                  calls := calls s @ [SetPosition p]\<rparr>)
      else Inl NotLoadedError)"

definition setVolumeAsync :: "nat \<Rightarrow> Sound \<Rightarrow> error + Sound" where
  "setVolumeAsync v s =
     (if isLoaded s then Inr (s\<lparr>volume := v, calls := calls s @ [SetVolume v]\<rparr>)
      else Inl NotLoadedError)"

definition setIsMutedAsync :: "bool \<Rightarrow> Sound \<Rightarrow> error + Sound" where
  "setIsMutedAsync m s =
     (if isLoaded s then Inr (s\<lparr>isMuted := m, calls := calls s @ [SetIsMuted m]\<rparr>)
      else Inl NotLoadedError)"

text \<open>An alert on the screen: title, message and the labels of its buttons.\<close>

datatype alert = Alert string string "string list"

datatype tab = TranscriptionTab | TopicsTab | ActionableTab

text \<open>
  The state of the review screen: the route parameters (\<open>audioUri\<close>, \<open>audioDuration\<close>,
  \<open>serverResult\<close>), the React state, and what the user has been shown.
\<close>

record ReviewScreen =
  route_audioUri :: string
  route_audioDuration :: int
  route_serverResult :: "ServerResult option"
  sound :: "Sound option"
  audioProgress :: int
  isPlaying :: bool
  recordingTitle :: string
  isLoading :: bool
  currentServerResult :: "ServerResult option"
  ui_actionablePoints :: "ActionablePoint list"
  isLoadingActionable :: bool
  activeTab :: tab
  alerts :: "alert list"

text \<open>\<open>const isSavedRecording = !!serverResult && serverResult.ok === true\<close>.\<close>

definition isSavedRecording :: "ReviewScreen \<Rightarrow> bool" where
  "isSavedRecording scr =
     (case route_serverResult scr of None \<Rightarrow> False | Some r \<Rightarrow> ok r)"

subsection \<open>togglePlayPause\<close>

text \<open>
  The outcome is the promise's and the screen as the call leaves it; a rejected call of
  the player rejects the promise where it stands. \<open>x || 0\<close> reads a missing duration as 0.
\<close>

definition togglePlayPause :: "ReviewScreen \<Rightarrow> (error + unit) \<times> ReviewScreen" where
  "togglePlayPause scr =
     (case sound scr of
        None \<Rightarrow> (Inr (), scr)
      | Some s0 \<Rightarrow>
          (let status = getStatusAsync s0 in
           if isLoaded status \<and> playing status
           then (case pauseAsync status of
                   Inl e \<Rightarrow> (Inl e, scr\<lparr>sound := Some status\<rparr>)
                 | Inr s1 \<Rightarrow> (Inr (), scr\<lparr>sound := Some s1, isPlaying := False\<rparr>))
           else
             (let position = (if isLoaded status then positionMillis status else 0);
                  duration = (if isLoaded status
                              then (case durationMillis status of None \<Rightarrow> 0 | Some d \<Rightarrow> d)
                              else 0);
                  finished = (isLoaded status \<and> didJustFinish status)
              in case (if finished \<or> position \<ge> duration - 100
                       then (case setPositionAsync 0 status of
                               Inl e \<Rightarrow> Inl (e, scr\<lparr>sound := Some status\<rparr>)
                             | Inr s1 \<Rightarrow> Inr (s1, scr\<lparr>audioProgress := 0\<rparr>))
                       else Inr (status, scr)) of
                   Inl (e, scr1) \<Rightarrow> (Inl e, scr1)
                 | Inr (s1, scr1) \<Rightarrow>
                     (case setVolumeAsync 100 s1 of
                        Inl e \<Rightarrow> (Inl e, scr1\<lparr>sound := Some s1\<rparr>)
                      | Inr s2 \<Rightarrow>
                          (case setIsMutedAsync False s2 of
                             Inl e \<Rightarrow> (Inl e, scr1\<lparr>sound := Some s2\<rparr>)
                           | Inr s3 \<Rightarrow>
                               (case playAsync s3 of
                                  Inl e \<Rightarrow> (Inl e, scr1\<lparr>sound := Some s3\<rparr>)
                                | Inr s4 \<Rightarrow>
                                    (Inr (), scr1\<lparr>sound := Some s4, isPlaying := True\<rparr>)))))))"

subsection \<open>handleSave\<close>

text \<open>
  \<open>String.prototype.trim\<close>. A \<open>char\<close> of a text is a code unit below 256; the white
  space and line terminators of ECMAScript among them are the code units 9 to 13, 32 and
  160 (the no-break space).
\<close>

definition isWhitespace :: "char \<Rightarrow> bool" where
  "isWhitespace ch = (of_char ch \<in> {9, 10, 11, 12, 13, 32, 160 :: nat})"

definition trim :: "string \<Rightarrow> string" where
  "trim s = rev (dropWhile isWhitespace (rev (dropWhile isWhitespace s)))"

text \<open>
  The object \<open>recordingData\<close> that \<open>handleSave\<close> builds; \<open>today\<close> is the text of
  \<open>new Date().toLocaleDateString()\<close>.
\<close>

definition recordingData :: "string \<Rightarrow> string \<Rightarrow> ReviewScreen \<Rightarrow> RecordingData" where
  "recordingData title' today scr =
     \<lparr>title = (if trim title' \<noteq> [] then trim title' else ''Recording '' @ today),
      audioUri = route_audioUri scr,
      audioDuration = route_audioDuration scr,
      transcription =
        (case currentServerResult scr of
           None \<Rightarrow> None
         | Some r \<Rightarrow>
             Some \<lparr>fullText = (case full_text r of None \<Rightarrow> [] | Some t \<Rightarrow> t),
                   words = (case res_words r of None \<Rightarrow> [] | Some ws \<Rightarrow> ws),
                   bullets = (case res_bullets r of None \<Rightarrow> [] | Some bs \<Rightarrow> bs),
                   summary_bullets =
                     (case res_summary_bullets r of None \<Rightarrow> [] | Some bs \<Rightarrow> bs),
                   topics = (case res_topics r of None \<Rightarrow> [] | Some ts \<Rightarrow> ts)\<rparr>),
      actionablePoints =
        (if length (ui_actionablePoints scr) > 0 then Some (ui_actionablePoints scr)
         else None)\<rparr>"

definition handleSave ::
  "string \<Rightarrow> string \<Rightarrow> int \<Rightarrow> int \<Rightarrow> ReviewScreen \<Rightarrow> AsyncStorage \<Rightarrow> ReviewScreen \<times> AsyncStorage" where
  "handleSave title' today now_id now_created scr st =
     (if route_audioUri scr = [] \<or> route_audioDuration scr = 0
      then (scr\<lparr>alerts := alerts scr @ [Alert ''Error'' ''No recording data to save'' []]\<rparr>, st)
      else
        (case saveRecording now_id now_created (recordingData title' today scr) st of
           (Inl e, st') \<Rightarrow>
             (scr\<lparr>isLoading := False,
                  alerts := alerts scr @
                    [Alert ''Error'' ''Failed to save recording. Please try again.'' []]\<rparr>, st')
         | (Inr savedRecording, st') \<Rightarrow>
             (scr\<lparr>isLoading := False,
                  alerts := alerts scr @
                    [Alert ''Success'' ''Recording saved successfully!'' [''OK'']]\<rparr>, st')))"

subsection \<open>extractActionablePoints\<close>

text \<open>
  What the request to the extraction service comes to: \<open>fetch\<close> rejects, or the
  response is not \<open>ok\<close> (status and body text), or it is and its body is no JSON, or
  its body is the object \<open>{ ok, actionablePoints, error }\<close>.
\<close>

datatype fetch_outcome =
  FetchRejected string
  | HttpFailure nat string
  | BodyNotJson string
  | ExtractionReply bool "ActionablePoint list option" "string option"

definition extractActionablePoints :: "fetch_outcome \<Rightarrow> ReviewScreen \<Rightarrow> ReviewScreen" where
  "extractActionablePoints response scr =
     (if (case currentServerResult scr of
            None \<Rightarrow> True
          | Some r \<Rightarrow> (case full_text r of None \<Rightarrow> True | Some t \<Rightarrow> t = []))
      then scr\<lparr>alerts := alerts scr @
             [Alert ''No Transcription''
                ''Please transcribe the audio first before extracting actionable points.'' []]\<rparr>
      else
        (case (case response of
                 FetchRejected message \<Rightarrow> Inl message
               | HttpFailure status errorText \<Rightarrow>
                   Inl (''HTTP '' @ Number_toString (int status) @ '': '' @ errorText)
               | BodyNotJson message \<Rightarrow> Inl message
               | ExtractionReply data_ok data_actionablePoints data_error \<Rightarrow>
                   (case data_actionablePoints of
                      Some points \<Rightarrow>
                        if data_ok then Inr points
                        else Inl (case data_error of
                                    None \<Rightarrow> ''Failed to extract actionable points''
                                  | Some m \<Rightarrow>
                                      if m = [] then ''Failed to extract actionable points''
                                      else m)
                    | None \<Rightarrow>
                        Inl (case data_error of
                               None \<Rightarrow> ''Failed to extract actionable points''
                             | Some m \<Rightarrow>
                                 if m = [] then ''Failed to extract actionable points''
                                 else m))) of
           Inl message \<Rightarrow>
             scr\<lparr>isLoadingActionable := False,
                 alerts := alerts scr @
                   [Alert ''Error'' (''Failed to extract actionable points: '' @ message) []]\<rparr>
         | Inr points \<Rightarrow>
             scr\<lparr>ui_actionablePoints := points,
                 activeTab := ActionableTab,
                 isLoadingActionable := False,
                 alerts := alerts scr @
                   [Alert ''Success''
                      (''Found '' @ Number_toString (int (length points)) @
                       '' actionable points!'') []]\<rparr>))"

subsection \<open>deleteActionablePoint\<close>

text \<open>\<open>Array.prototype.findIndex\<close>; \<open>None\<close> is the result \<open>-1\<close>.\<close>

fun findIndex :: "('a \<Rightarrow> bool) \<Rightarrow> 'a list \<Rightarrow> nat option" where
  "findIndex P [] = None"
| "findIndex P (x # xs) = (if P x then Some 0 else map_option Suc (findIndex P xs))"

datatype button = CancelButton | DeleteButton

definition deleteConfirmation :: alert where
  "deleteConfirmation =
     Alert ''Delete Actionable Point''
       ''Are you sure you want to delete this actionable point? This action cannot be undone.''
       [''Cancel'', ''Delete'']"

text \<open>
  The confirmation dialog and, when the user presses Delete, its handler. An error of
  the synchronisation with the store is caught and only logged.
\<close>

definition deleteActionablePoint ::
  "string \<Rightarrow> button \<Rightarrow> ReviewScreen \<Rightarrow> AsyncStorage \<Rightarrow> ReviewScreen \<times> AsyncStorage" where
  "deleteActionablePoint pointId pressed scr st =
     (let asked = scr\<lparr>alerts := alerts scr @ [deleteConfirmation]\<rparr>
      in case pressed of
           CancelButton \<Rightarrow> (asked, st)
         | DeleteButton \<Rightarrow>
             (let updatedPoints =
                    filter (\<lambda>point. point_id point \<noteq> pointId) (ui_actionablePoints scr);
                  scr' = asked\<lparr>ui_actionablePoints := updatedPoints\<rparr>
              in if isSavedRecording scr \<and> currentServerResult scr \<noteq> None
                 then (case getRecordings st of
                         Inl e \<Rightarrow> (scr', st)
                       | Inr recordings \<Rightarrow>
                           (case findIndex (\<lambda>r. audioUri r = route_audioUri scr \<and>
                                                 audioDuration r = route_audioDuration scr)
                                   recordings of
                              None \<Rightarrow> (scr', st)
                            | Some recordingIndex \<Rightarrow>
                                (case setItem (JSON_stringify
                                        (recordings[recordingIndex :=
                                           (recordings ! recordingIndex)
                                             \<lparr>actionablePoints :=
                                                (if length updatedPoints > 0
                                                 then Some updatedPoints else None)\<rparr>])) st of
                                   Inl e \<Rightarrow> (scr', st)
                                 | Inr st' \<Rightarrow> (scr', st'))))
                 else (scr', st)))"

section \<open>The record screen: stop\<close>

text \<open>
  The \<open>Audio.Recording\<close> in progress: the locator of its temporary file (\<open>getURI()\<close>)
  and whether \<open>stopAndUnloadAsync\<close> rejects.
\<close>

record Recording =
  uri :: string
  stop_rejects :: bool

record RecordScreen =
  recording :: "Recording option"
  record_isLoading :: bool
  record_audioUri :: "string option"
  record_audioDuration :: int
  recordingElapsedMs :: int
  recordingStartTimeMs :: "int option"
  record_alerts :: "alert list"
  navigated :: "(string \<times> int) list"

text \<open>
  \<open>documentDirectory\<close> and \<open>now\<close> (\<open>Date.now()\<close>) name the permanent file. The
  duration is probed by loading the file into a sound, which rejects unless the file
  holds audio. \<open>navigated\<close> collects the calls \<open>navigation.navigate('Review', ...)\<close> with
  their \<open>audioUri\<close> and \<open>audioDuration\<close>. The message of the alert Stop Failed is the
  text of the error caught, written here as the error's name.
\<close>

definition stop ::
  "string \<Rightarrow> int \<Rightarrow> RecordScreen \<Rightarrow> FileSystem \<Rightarrow> RecordScreen \<times> FileSystem" where
  "stop documentDirectory now scr fs =
     (case recording scr of
        None \<Rightarrow> (scr, fs)
      | Some rec \<Rightarrow>
          if stop_rejects rec
          then (scr\<lparr>record_isLoading := False,
                    record_alerts := record_alerts scr @ [Alert ''Stop Failed'' ''RecordingError'' []]\<rparr>,
                fs)
          else
            (let tempUri = uri rec;
                 scr1 = scr\<lparr>recording := None, recordingStartTimeMs := None,
                           recordingElapsedMs := 0\<rparr>;
                 target = documentDirectory @ ''recording_'' @ Number_toString now @ ''.m4a'';
                 (permanentUri, fs1) =
                   (case copyAsync tempUri target fs of
                      Inl copyError \<Rightarrow> (tempUri, fs)
                    | Inr fs' \<Rightarrow>
                        (case deleteAsync tempUri True fs' of
                           Inl copyError \<Rightarrow> (tempUri, fs')
                         | Inr fs'' \<Rightarrow> (target, fs'')))
             in case files fs1 permanentUri of
                  Some (Audio durationMillis') \<Rightarrow>
                    (let duration = (case durationMillis' of None \<Rightarrow> 0 | Some ms \<Rightarrow> ms)
                     in (scr1\<lparr>record_audioDuration := duration,
                              record_audioUri := Some permanentUri,
                              navigated := navigated scr1 @ [(permanentUri, duration)],
                              record_isLoading := False\<rparr>, fs1))
                | _ \<Rightarrow>
                    (scr1\<lparr>record_isLoading := False,
                          record_alerts := record_alerts scr1 @
                            [Alert ''Stop Failed'' ''LoadError'' []]\<rparr>, fs1)))"

section \<open>Example screens\<close>

definition paused_at :: "int \<Rightarrow> Sound" where
  "paused_at p =
     \<lparr>isLoaded = True, positionMillis = p, durationMillis = Some 10000, playing = False,
      didJustFinish = False, volume = 100, isMuted = False, calls = []\<rparr>"

definition transcribed :: ServerResult where
  "transcribed =
     \<lparr>ok = True, full_text = Some ''call Ann, book room'', res_words = None,
      res_bullets = None, res_summary_bullets = None, res_topics = None\<rparr>"

definition point :: "string \<Rightarrow> string \<Rightarrow> ActionablePoint" where
  "point i t =
     \<lparr>point_id = i, point_title = t, point_description = [], point_priority = ''medium'',
      point_category = [], point_dueDate = [], point_assignee = [],
      point_status = ''pending''\<rparr>"

definition review :: "Sound \<Rightarrow> ReviewScreen" where
  "review s =
     \<lparr>route_audioUri = ''file://a.m4a'', route_audioDuration = 65000,
      route_serverResult = Some transcribed, sound = Some s,
      audioProgress = positionMillis s, isPlaying = False, recordingTitle = [],
      isLoading = False, currentServerResult = Some transcribed,
      ui_actionablePoints = [point ''p1'' ''Call Ann'', point ''p2'' ''Book room''],
      isLoadingActionable = False, activeTab = TranscriptionTab, alerts = []\<rparr>"

section \<open>Playback\<close>

text \<open>
  Claim C6: on a loaded sound that is not playing, \<open>togglePlayPause\<close> completes with
  the sound playing. If the status has \<open>didJustFinish\<close> set, or its position is at or
  past the duration less 100 ms (a missing duration read as 0), the call first sets the
  position to 0 and then plays, so that playback starts at 0 and the screen's progress is
  0; otherwise it plays without a seek, from the position the sound had.
\<close>

theorem togglePlayPause_replays_from_start:
  assumes "sound scr = Some s" and "isLoaded s" and "\<not> playing s"
  shows "\<exists>s'. togglePlayPause scr =
          (Inr (), scr\<lparr>sound := Some s',
                        audioProgress :=
                          (if didJustFinish s \<or> positionMillis s \<ge>
                                (case durationMillis s of None \<Rightarrow> 0 | Some d \<Rightarrow> d) - 100
                           then 0 else audioProgress scr),
                        isPlaying := True\<rparr>)
        \<and> playing s'
        \<and> (if didJustFinish s \<or> positionMillis s \<ge>
                (case durationMillis s of None \<Rightarrow> 0 | Some d \<Rightarrow> d) - 100
           then positionMillis s' = 0 \<and>
                calls s' = calls s @
                  [GetStatus, SetPosition 0, SetVolume 100, SetIsMuted False, Play]
           else positionMillis s' = positionMillis s \<and>
                calls s' = calls s @ [GetStatus, SetVolume 100, SetIsMuted False, Play])"
proof (cases "didJustFinish s \<or> positionMillis s \<ge>
                (case durationMillis s of None \<Rightarrow> 0 | Some d \<Rightarrow> d) - 100")
  case True
  let ?s' = "s\<lparr>positionMillis := 0, didJustFinish := False, volume := 100, isMuted := False,
               playing := True,
               calls := calls s @ [GetStatus, SetPosition 0, SetVolume 100, SetIsMuted False, Play]\<rparr>"
  have "togglePlayPause scr =
      (Inr (), scr\<lparr>sound := Some ?s', audioProgress := 0, isPlaying := True\<rparr>)"
    using assms True
    by (cases "durationMillis s")
      (auto simp: togglePlayPause_def getStatusAsync_def setPositionAsync_def
        setVolumeAsync_def setIsMutedAsync_def playAsync_def Let_def)
  with True show ?thesis
    by (intro exI[of _ ?s']) simp
next
  case False
  let ?s' = "s\<lparr>volume := 100, isMuted := False, playing := True, didJustFinish := False,
               calls := calls s @ [GetStatus, SetVolume 100, SetIsMuted False, Play]\<rparr>"
  have "togglePlayPause scr = (Inr (), scr\<lparr>sound := Some ?s', isPlaying := True\<rparr>)"
    using assms False
    by (cases "durationMillis s")
      (auto simp: togglePlayPause_def getStatusAsync_def setPositionAsync_def
        setVolumeAsync_def setIsMutedAsync_def playAsync_def Let_def)
  with False show ?thesis
    by (intro exI[of _ ?s']) simp
qed

theorem togglePlayPause_replays_from_start_witness:
  "sound (review (paused_at 9950)) = Some (paused_at 9950)
   \<and> isLoaded (paused_at 9950) \<and> \<not> playing (paused_at 9950)
   \<and> (\<exists>s'. togglePlayPause (review (paused_at 9950)) =
            (Inr (), (review (paused_at 9950))
               \<lparr>sound := Some s', audioProgress := 0, isPlaying := True\<rparr>)
          \<and> playing s' \<and> positionMillis s' = 0
          \<and> calls s' = [GetStatus, SetPosition 0, SetVolume 100, SetIsMuted False, Play])
   \<and> (\<exists>s'. togglePlayPause (review (paused_at 5000)) =
            (Inr (), (review (paused_at 5000))
               \<lparr>sound := Some s', audioProgress := 5000, isPlaying := True\<rparr>)
          \<and> playing s' \<and> positionMillis s' = 5000
          \<and> calls s' = [GetStatus, SetVolume 100, SetIsMuted False, Play])"
proof -
  have a: "sound (review (paused_at p)) = Some (paused_at p)" for p
    by (simp add: review_def)
  have b: "isLoaded (paused_at p)" "\<not> playing (paused_at p)" for p
    by (simp_all add: paused_at_def)
  have c: "positionMillis (paused_at p) = p" "durationMillis (paused_at p) = Some 10000"
    "didJustFinish (paused_at p) = False" "calls (paused_at p) = []"
    "audioProgress (review (paused_at p)) = p" for p
    by (simp_all add: paused_at_def review_def)
  from togglePlayPause_replays_from_start[OF a b, of 9950]
    togglePlayPause_replays_from_start[OF a b, of 5000] a b
  show ?thesis by (simp add: c)
qed

section \<open>Actionable points\<close>

text \<open>
  Claim C9: an extraction that succeeds replaces the list of actionable points by the
  points of the reply. After two successful extractions the list is exactly the second
  reply's; nothing of the first remains.
\<close>

theorem extractActionablePoints_replaces_wholesale:
  assumes "currentServerResult scr = Some r" and "full_text r = Some t" and "t \<noteq> []"
  shows "ui_actionablePoints
           (extractActionablePoints (ExtractionReply True (Some second) e2)
              (extractActionablePoints (ExtractionReply True (Some first) e1) scr)) = second"
proof -
  let ?scr1 = "extractActionablePoints (ExtractionReply True (Some first) e1) scr"
  have "currentServerResult ?scr1 = Some r"
    using assms by (simp add: extractActionablePoints_def)
  with assms(2,3) show ?thesis
    by (simp add: extractActionablePoints_def)
qed

theorem extractActionablePoints_replaces_wholesale_witness:
  "currentServerResult (review (paused_at 0)) = Some transcribed
   \<and> full_text transcribed = Some ''call Ann, book room''
   \<and> ''call Ann, book room'' \<noteq> []
   \<and> ui_actionablePoints
        (extractActionablePoints (ExtractionReply True (Some [point ''c'' ''Send notes'']) None)
           (extractActionablePoints
              (ExtractionReply True (Some [point ''a'' ''Call Ann'', point ''b'' ''Book room'']) None)
              (review (paused_at 0)))) = [point ''c'' ''Send notes'']"
proof -
  have a: "currentServerResult (review (paused_at 0)) = Some transcribed"
    by (simp add: review_def)
  have b: "full_text transcribed = Some ''call Ann, book room''"
    by (simp add: transcribed_def)
  have c: "''call Ann, book room'' \<noteq> []" by simp
  from extractActionablePoints_replaces_wholesale[OF a b c] a b c show ?thesis by simp
qed

section \<open>Finalising a recording\<close>

text \<open>
  Claim C5, as the code has it: when the copy of the temporary file to the permanent
  location fails, \<open>stop\<close> goes on with the temporary locator and leaves the file
  system as it was. If the temporary file loads for the probe of the duration, \<open>stop\<close>
  shows no alert, navigates to the review with the temporary locator and the probed
  duration, and keeps that locator as the screen's \<open>audioUri\<close>. If the temporary file
  is missing or does not load, \<open>stop\<close> shows the alert Stop Failed and does not
  navigate.
\<close>

theorem stop_after_failed_copy:
  assumes "recording scr = Some rec" and "\<not> stop_rejects rec"
    and "copyAsync (uri rec) (documentDirectory @ ''recording_'' @ Number_toString now @ ''.m4a'') fs
          = Inl e"
  shows "stop documentDirectory now scr fs =
     (case files fs (uri rec) of
        Some (Audio d) \<Rightarrow>
          (scr\<lparr>recording := None, recordingStartTimeMs := None, recordingElapsedMs := 0,
               record_audioDuration := (case d of None \<Rightarrow> 0 | Some ms \<Rightarrow> ms),
               record_audioUri := Some (uri rec),
               navigated := navigated scr @ [(uri rec, case d of None \<Rightarrow> 0 | Some ms \<Rightarrow> ms)],
               record_isLoading := False\<rparr>, fs)
      | Some Unplayable \<Rightarrow>
          (scr\<lparr>recording := None, recordingStartTimeMs := None, recordingElapsedMs := 0,
               record_isLoading := False,
               record_alerts := record_alerts scr @ [Alert ''Stop Failed'' ''LoadError'' []]\<rparr>,
           fs)
      | None \<Rightarrow>
          (scr\<lparr>recording := None, recordingStartTimeMs := None, recordingElapsedMs := 0,
               record_isLoading := False,
               record_alerts := record_alerts scr @ [Alert ''Stop Failed'' ''LoadError'' []]\<rparr>,
           fs))"
  using assms by (simp add: stop_def Let_def split: option.split blob.split)

definition recording_now :: RecordScreen where
  "recording_now =
     \<lparr>recording = Some \<lparr>uri = ''file://cache/rec.m4a'', stop_rejects = False\<rparr>,
      record_isLoading = False, record_audioUri = None, record_audioDuration = 0,
      recordingElapsedMs = 3000, recordingStartTimeMs = Some 1700000000000,
      record_alerts = [], navigated = []\<rparr>"

definition full_disk :: FileSystem where
  "full_disk =
     \<lparr>files = [''file://cache/rec.m4a'' \<mapsto> Audio (Some 3000)],
      write_protected = {''file://docs/recording_1700000003000.m4a''}\<rparr>"

definition no_files :: FileSystem where
  "no_files = \<lparr>files = Map.empty, write_protected = {}\<rparr>"

definition full_disk_unplayable :: FileSystem where
  "full_disk_unplayable =
     \<lparr>files = [''file://cache/rec.m4a'' \<mapsto> Unplayable],
      write_protected = {''file://docs/recording_1700000003000.m4a''}\<rparr>"

lemma Number_toString_1700000003000: "Number_toString 1700000003000 = ''1700000003000''"
  by (simp add: Number_toString_def digits10.simps char_of_def bit_Suc_0_iff)

theorem stop_after_failed_copy_witness:
  "copyAsync ''file://cache/rec.m4a'' ''file://docs/recording_1700000003000.m4a'' full_disk
     = Inl FileError
   \<and> files full_disk ''file://cache/rec.m4a'' = Some (Audio (Some 3000))
   \<and> stop ''file://docs/'' 1700000003000 recording_now full_disk =
     (recording_now\<lparr>recording := None, recordingStartTimeMs := None, recordingElapsedMs := 0,
          record_audioDuration := 3000,
          record_audioUri := Some ''file://cache/rec.m4a'',
          navigated := [(''file://cache/rec.m4a'', 3000)],
          record_isLoading := False\<rparr>, full_disk)"
proof -
  let ?rec = "\<lparr>uri = ''file://cache/rec.m4a'', stop_rejects = False\<rparr>"
  have a: "recording recording_now = Some ?rec" by (simp add: recording_now_def)
  have b: "\<not> stop_rejects ?rec" by simp
  have c: "copyAsync (uri ?rec)
      (''file://docs/'' @ ''recording_'' @ Number_toString 1700000003000 @ ''.m4a'') full_disk
      = Inl FileError"
    by (simp add: Number_toString_1700000003000 copyAsync_def full_disk_def)
  have d: "files full_disk (uri ?rec) = Some (Audio (Some 3000))"
    by (simp add: full_disk_def)
  have n: "navigated recording_now = []" by (simp add: recording_now_def)
  from stop_after_failed_copy[OF a b c] c d n
  show ?thesis by (simp add: Number_toString_1700000003000)
qed

text \<open>
  Claim C5 as stated, that after a failed copy the session completes with the temporary
  locator instead of failing, does not hold when the temporary file is missing or is
  not audio the player loads: the copy fails, the load of the temporary locator
  rejects as well, and \<open>stop\<close> ends with the alert Stop Failed and without a
  navigation.
\<close>

theorem stop_fails_when_temporary_file_does_not_load:
  "copyAsync ''file://cache/rec.m4a'' ''file://docs/recording_1700000003000.m4a'' no_files
     = Inl FileError
   \<and> stop ''file://docs/'' 1700000003000 recording_now no_files =
     (recording_now\<lparr>recording := None, recordingStartTimeMs := None, recordingElapsedMs := 0,
          record_isLoading := False,
          record_alerts := [Alert ''Stop Failed'' ''LoadError'' []]\<rparr>, no_files)
   \<and> navigated (fst (stop ''file://docs/'' 1700000003000 recording_now no_files)) = []
   \<and> copyAsync ''file://cache/rec.m4a'' ''file://docs/recording_1700000003000.m4a''
       full_disk_unplayable = Inl FileError
   \<and> stop ''file://docs/'' 1700000003000 recording_now full_disk_unplayable =
     (recording_now\<lparr>recording := None, recordingStartTimeMs := None, recordingElapsedMs := 0,
          record_isLoading := False,
          record_alerts := [Alert ''Stop Failed'' ''LoadError'' []]\<rparr>, full_disk_unplayable)
   \<and> navigated (fst (stop ''file://docs/'' 1700000003000 recording_now full_disk_unplayable))
       = []"
  by (simp add: stop_def Let_def recording_now_def no_files_def full_disk_unplayable_def
      copyAsync_def Number_toString_1700000003000)

section \<open>Removing an actionable point\<close>

lemma findIndex_Some: "findIndex P xs = Some i \<Longrightarrow> i < length xs \<and> P (xs ! i)"
proof (induction xs arbitrary: i)
  case Nil
  then show ?case by simp
next
  case (Cons x xs)
  show ?case
  proof (cases "P x")
    case True
    with Cons.prems show ?thesis by simp
  next
    case False
    with Cons.prems obtain j where j: "findIndex P xs = Some j" "i = Suc j" by auto
    with Cons.IH[of j] show ?thesis by simp
  qed
qed




lemma deleteActionablePoint_synced:
  "isSavedRecording scr \<Longrightarrow> currentServerResult scr \<noteq> None \<Longrightarrow> \<not> write_fails st \<Longrightarrow>
   getRecordings st = Inr rs \<Longrightarrow>
   findIndex (\<lambda>r. audioUri r = route_audioUri scr \<and> audioDuration r = route_audioDuration scr) rs
     = Some i \<Longrightarrow>
   snd (deleteActionablePoint pointId DeleteButton scr st) =
     st\<lparr>saved_recordings := Some (JsonRecordings
       (rs[i := (rs ! i)\<lparr>actionablePoints :=
          (if filter (\<lambda>point. point_id point \<noteq> pointId) (ui_actionablePoints scr) = []
           then None
           else Some (filter (\<lambda>point. point_id point \<noteq> pointId) (ui_actionablePoints scr)))\<rparr>]))\<rparr>"
  by (auto simp: deleteActionablePoint_def Let_def setItem_def JSON_stringify_def)




section \<open>Persisted actionable points are never an empty list\<close>

text \<open>
  The writers of the stored collection: a save from the review screen, the removal of
  an actionable point, and the deletion of a recording.
\<close>

datatype action =
  SaveFromReview string string int int ReviewScreen
  | RemovePoint string button ReviewScreen
  | DeleteRecording string FileSystem

fun perform :: "action \<Rightarrow> AsyncStorage \<Rightarrow> AsyncStorage" where
  "perform (SaveFromReview title' today now_id now_created scr) st =
     snd (handleSave title' today now_id now_created scr st)"
| "perform (RemovePoint pointId pressed scr) st =
     snd (deleteActionablePoint pointId pressed scr st)"
| "perform (DeleteRecording id' fs) st = fst (snd (deleteRecording id' st fs))"

fun performAll :: "action list \<Rightarrow> AsyncStorage \<Rightarrow> AsyncStorage" where
  "performAll [] st = st"
| "performAll (a # as) st = performAll as (perform a st)"

definition no_empty_points :: "AsyncStorage \<Rightarrow> bool" where
  "no_empty_points st = (\<forall>r \<in> set (collection st). actionablePoints r \<noteq> Some [])"

lemma saveRecording_collection:
  "set (collection (snd (saveRecording t c d st))) \<subseteq>
     insert (newSavedRecording (Number_toString t) (toISOString c) d) (set (collection st))"
proof (cases "healthy st")
  case False
  then show ?thesis by (auto simp: saveRecording_unhealthy)
next
  case True
  show ?thesis
  proof (cases "saved_recordings st")
    case None
    with True show ?thesis
      by (simp add: saveRecording_healthy holds_collection_def)
  next
    case (Some stored)
    show ?thesis
    proof (cases stored)
      case (NotJson s)
      with Some True show ?thesis
        by (auto simp: saveRecording_def healthy_def getItem_def setItem_def
            JSON_stringify_def Let_def)
    next
      case (JsonRecordings rs)
      with Some True show ?thesis
        by (simp add: saveRecording_healthy holds_collection_def)
    next
      case JsonNonArray
      with Some True show ?thesis
        by (auto simp: saveRecording_def healthy_def getItem_def Let_def)
    qed
  qed
qed

lemma recordingData_points:
  "actionablePoints (recordingData title' today scr) =
     (if ui_actionablePoints scr = [] then None else Some (ui_actionablePoints scr))"
  by (simp add: recordingData_def)

lemma handleSave_store:
  "snd (handleSave title' today now_id now_created scr st) =
     (if route_audioUri scr = [] \<or> route_audioDuration scr = 0 then st
      else snd (saveRecording now_id now_created (recordingData title' today scr) st))"
  by (simp add: handleSave_def split: prod.split sum.split)

lemma handleSave_keeps_no_empty_points:
  assumes "no_empty_points st"
  shows "no_empty_points (snd (handleSave title' today now_id now_created scr st))"
proof (cases "route_audioUri scr = [] \<or> route_audioDuration scr = 0")
  case True
  with assms show ?thesis by (simp add: handleSave_store)
next
  case False
  let ?d = "recordingData title' today scr"
  let ?new = "newSavedRecording (Number_toString now_id) (toISOString now_created) ?d"
  have "actionablePoints ?new \<noteq> Some []"
    by (simp add: newSavedRecording_def recordingData_points)
  with assms saveRecording_collection[of now_id now_created ?d st]
  have "no_empty_points (snd (saveRecording now_id now_created ?d st))"
    unfolding no_empty_points_def by blast
  with False show ?thesis by (simp add: handleSave_store)
qed

lemma deleteActionablePoint_keeps_no_empty_points:
  assumes "no_empty_points st"
  shows "no_empty_points (snd (deleteActionablePoint pointId pressed scr st))"
proof (cases pressed)
  case CancelButton
  with assms show ?thesis by (simp add: deleteActionablePoint_def Let_def)
next
  case DeleteButton
  let ?P = "\<lambda>r. audioUri r = route_audioUri scr \<and> audioDuration r = route_audioDuration scr"
  let ?updated = "filter (\<lambda>point. point_id point \<noteq> pointId) (ui_actionablePoints scr)"
  obtain rs where rs: "getRecordings st = Inr rs" using getRecordings_total by blast
  show ?thesis
  proof (cases "isSavedRecording scr \<and> currentServerResult scr \<noteq> None \<and> \<not> write_fails st
      \<and> findIndex ?P rs \<noteq> None")
    case False
    then have "snd (deleteActionablePoint pointId pressed scr st) = st"
      using rs DeleteButton
      by (auto simp: deleteActionablePoint_def Let_def setItem_def split: option.split)
    with assms show ?thesis by simp
  next
    case True
    then obtain i where i: "findIndex ?P rs = Some i" by auto
    let ?r = "(rs ! i)\<lparr>actionablePoints := (if ?updated = [] then None else Some ?updated)\<rparr>"
    have st': "snd (deleteActionablePoint pointId pressed scr st) =
        st\<lparr>saved_recordings := Some (JsonRecordings (rs[i := ?r]))\<rparr>"
      using True rs i DeleteButton by (simp add: deleteActionablePoint_synced)
    have upd: "set (rs[i := ?r]) \<subseteq> insert ?r (set rs)" by (rule set_update_subset_insert)
    have sub: "set rs \<subseteq> set (collection st)" using rs by (rule getRecordings_subset)
    have new: "actionablePoints ?r \<noteq> Some []" by simp
    have "actionablePoints r \<noteq> Some []" if "r \<in> set (rs[i := ?r])" for r
    proof -
      from that upd have "r = ?r \<or> r \<in> set rs" by blast
      then show ?thesis
      proof
        assume "r = ?r"
        with new show ?thesis by simp
      next
        assume "r \<in> set rs"
        with sub have "r \<in> set (collection st)" by blast
        with assms show ?thesis unfolding no_empty_points_def by blast
      qed
    qed
    then show ?thesis unfolding st' no_empty_points_def by simp
  qed
qed

lemma deleteRecording_keeps_no_empty_points:
  assumes "no_empty_points st"
  shows "no_empty_points (fst (snd (deleteRecording id' st fs)))"
proof -
  obtain rs where rs: "getRecordings st = Inr rs" using getRecordings_total by blast
  then have sub: "set rs \<subseteq> set (collection st)" by (rule getRecordings_subset)
  show ?thesis
  proof (cases "write_fails st")
    case True
    with rs assms show ?thesis
      by (simp add: deleteRecording_def setItem_def Let_def)
  next
    case False
    with rs have "fst (snd (deleteRecording id' st fs)) =
        st\<lparr>saved_recordings := Some (JsonRecordings (filter (\<lambda>r. rec_id r \<noteq> id') rs))\<rparr>"
      by (simp add: deleteRecording_def setItem_def JSON_stringify_def Let_def)
    moreover have "\<forall>r \<in> set (filter (\<lambda>r. rec_id r \<noteq> id') rs). actionablePoints r \<noteq> Some []"
      using sub assms unfolding no_empty_points_def by (auto simp del: collection.simps)
    ultimately show ?thesis unfolding no_empty_points_def by simp
  qed
qed

lemma perform_keeps_no_empty_points:
  "no_empty_points st \<Longrightarrow> no_empty_points (perform a st)"
  by (cases a)
    (simp_all add: handleSave_keeps_no_empty_points deleteActionablePoint_keeps_no_empty_points
      deleteRecording_keeps_no_empty_points)

lemma performAll_keeps_no_empty_points:
  "no_empty_points st \<Longrightarrow> no_empty_points (performAll acts st)"
  by (induction acts arbitrary: st) (simp_all add: perform_keeps_no_empty_points)

text \<open>
  Claim C8: no record of the stored collection holds an empty list of actionable
  points, after any sequence of saves from the review screen, removals of actionable
  points and deletions of recordings, on a store where this held before (a store that
  holds nothing is one). The save stores the screen's points, and absent when the
  screen has none; the removal stores the remaining points in the matching record,
  and absent when none remain.
\<close>

theorem persisted_actionablePoints_never_empty:
  assumes "no_empty_points st"
  shows "no_empty_points (performAll acts st)
     \<and> (route_audioUri scr \<noteq> [] \<and> route_audioDuration scr \<noteq> 0 \<and>
        healthy st \<and> holds_collection st \<longrightarrow>
          (\<exists>r. collection (snd (handleSave title' today now_id now_created scr st)) =
                 r # collection st
             \<and> actionablePoints r =
                 (if ui_actionablePoints scr = [] then None
                  else Some (ui_actionablePoints scr))))
     \<and> (\<forall>rs i. isSavedRecording scr \<and> currentServerResult scr \<noteq> None \<and> \<not> write_fails st \<and>
            getRecordings st = Inr rs \<and>
            findIndex (\<lambda>r. audioUri r = route_audioUri scr \<and>
                            audioDuration r = route_audioDuration scr) rs = Some i \<longrightarrow>
          actionablePoints
            (collection (snd (deleteActionablePoint pointId DeleteButton scr st)) ! i) =
            (if filter (\<lambda>point. point_id point \<noteq> pointId) (ui_actionablePoints scr) = []
             then None
             else Some (filter (\<lambda>point. point_id point \<noteq> pointId)
                          (ui_actionablePoints scr))))"
proof (intro conjI allI impI)
  show "no_empty_points (performAll acts st)"
    using assms by (rule performAll_keeps_no_empty_points)
next
  assume h: "route_audioUri scr \<noteq> [] \<and> route_audioDuration scr \<noteq> 0 \<and>
        healthy st \<and> holds_collection st"
  let ?new = "newSavedRecording (Number_toString now_id) (toISOString now_created)
      (recordingData title' today scr)"
  from h have "collection (snd (handleSave title' today now_id now_created scr st)) =
      ?new # collection st"
    by (simp add: handleSave_store saveRecording_healthy)
  moreover have "actionablePoints ?new =
      (if ui_actionablePoints scr = [] then None else Some (ui_actionablePoints scr))"
    by (simp add: newSavedRecording_def recordingData_points)
  ultimately show "\<exists>r. collection (snd (handleSave title' today now_id now_created scr st)) =
                 r # collection st
             \<and> actionablePoints r =
                 (if ui_actionablePoints scr = [] then None
                  else Some (ui_actionablePoints scr))"
    by blast
next
  fix rs i
  let ?P = "\<lambda>r. audioUri r = route_audioUri scr \<and> audioDuration r = route_audioDuration scr"
  assume h: "isSavedRecording scr \<and> currentServerResult scr \<noteq> None \<and> \<not> write_fails st \<and>
            getRecordings st = Inr rs \<and> findIndex ?P rs = Some i"
  then have "i < length rs" using findIndex_Some[of ?P rs i] by blast
  with h show "actionablePoints
            (collection (snd (deleteActionablePoint pointId DeleteButton scr st)) ! i) =
            (if filter (\<lambda>point. point_id point \<noteq> pointId) (ui_actionablePoints scr) = []
             then None
             else Some (filter (\<lambda>point. point_id point \<noteq> pointId)
                          (ui_actionablePoints scr)))"
    by (simp add: deleteActionablePoint_synced)
qed

definition one_point_left :: AsyncStorage where
  "one_point_left =
     \<lparr>saved_recordings = Some (JsonRecordings
        [newSavedRecording ''2'' (ISODate 2000) retro,
         (newSavedRecording ''1'' (ISODate 1000) standup)
           \<lparr>actionablePoints := Some [point ''p2'' ''Book room'']\<rparr>]),
      read_fails = False, write_fails = False\<rparr>"

definition last_point :: ReviewScreen where
  "last_point = (review (paused_at 0))\<lparr>ui_actionablePoints := [point ''p2'' ''Book room'']\<rparr>"

definition no_points :: ReviewScreen where
  "no_points = (review (paused_at 0))\<lparr>ui_actionablePoints := []\<rparr>"

theorem persisted_actionablePoints_never_empty_witness:
  "no_empty_points one_point_left
   \<and> no_empty_points
       (performAll [SaveFromReview '' '' ''11/3/2026'' 1700000000000 1700000000000 no_points,
                    RemovePoint ''p2'' DeleteButton last_point,
                    DeleteRecording ''2'' one_file] one_point_left)
   \<and> (\<exists>r. collection (snd (handleSave '' '' ''11/3/2026'' 1700000000000 1700000000000
                            no_points one_point_left)) = r # collection one_point_left
        \<and> actionablePoints r = None)
   \<and> getRecordings one_point_left =
       Inr [newSavedRecording ''2'' (ISODate 2000) retro,
            (newSavedRecording ''1'' (ISODate 1000) standup)
              \<lparr>actionablePoints := Some [point ''p2'' ''Book room'']\<rparr>]
   \<and> actionablePoints
       (collection (snd (deleteActionablePoint ''p2'' DeleteButton last_point one_point_left)) ! 1)
      = None"
proof -
  have inv: "no_empty_points one_point_left"
    by (simp add: no_empty_points_def one_point_left_def newSavedRecording_def
        retro_def standup_def)
  have store: "healthy one_point_left" "holds_collection one_point_left"
    "\<not> write_fails one_point_left"
    by (simp_all add: healthy_def holds_collection_def one_point_left_def)
  have scr: "route_audioUri no_points \<noteq> []" "route_audioDuration no_points \<noteq> 0"
    "ui_actionablePoints no_points = []"
    "isSavedRecording last_point" "currentServerResult last_point \<noteq> None"
    "route_audioUri last_point = ''file://a.m4a''" "route_audioDuration last_point = 65000"
    "filter (\<lambda>point. point_id point \<noteq> ''p2'') (ui_actionablePoints last_point) = []"
    by (simp_all add: no_points_def last_point_def review_def isSavedRecording_def
        transcribed_def point_def)
  have listed: "getRecordings one_point_left =
       Inr [newSavedRecording ''2'' (ISODate 2000) retro,
            (newSavedRecording ''1'' (ISODate 1000) standup)
              \<lparr>actionablePoints := Some [point ''p2'' ''Book room'']\<rparr>]"
    by (simp add: one_point_left_def getRecordings_stored byCreatedAtDesc_def
        newSavedRecording_def)
  have idx: "findIndex (\<lambda>r. audioUri r = ''file://a.m4a'' \<and> audioDuration r = 65000)
       [newSavedRecording ''2'' (ISODate 2000) retro,
        (newSavedRecording ''1'' (ISODate 1000) standup)
          \<lparr>actionablePoints := Some [point ''p2'' ''Book room'']\<rparr>] = Some 1"
    by (simp add: newSavedRecording_def retro_def standup_def)
  note inst = persisted_actionablePoints_never_empty[OF inv,
      of "[SaveFromReview '' '' ''11/3/2026'' 1700000000000 1700000000000 no_points,
           RemovePoint ''p2'' DeleteButton last_point,
           DeleteRecording ''2'' one_file]"]
  from inst[of no_points "'' ''" "''11/3/2026''" 1700000000000 1700000000000 "''p2''"]
  have a: "no_empty_points
       (performAll [SaveFromReview '' '' ''11/3/2026'' 1700000000000 1700000000000 no_points,
                    RemovePoint ''p2'' DeleteButton last_point,
                    DeleteRecording ''2'' one_file] one_point_left)"
    and b: "\<exists>r. collection (snd (handleSave '' '' ''11/3/2026'' 1700000000000 1700000000000
                            no_points one_point_left)) = r # collection one_point_left
        \<and> actionablePoints r = None"
    using store scr(1-3) by simp_all
  from inst[of last_point _ _ _ _ "''p2''"] store scr(4-8) listed idx
  have c: "actionablePoints
       (collection (snd (deleteActionablePoint ''p2'' DeleteButton last_point one_point_left)) ! 1)
      = None"
    by simp
  from inv a b listed c show ?thesis by (intro conjI)
qed

section \<open>JavaScript numbers\<close>

text \<open>
  A JavaScript number is an IEEE 754 binary64 value. A finite one is kept as the
  rational it denotes, and an arithmetic operation is the exact operation on the
  rationals followed by the rounding \<open>fl\<close> to the nearest double, ties to the even
  significand. \<open>expo x\<close> is the binary exponent of a positive \<open>x\<close>; a double has 53
  significant bits, and below \<open>2 ^ - 1022\<close> the spacing stays that of the subnormal
  numbers. The values \<open>Infinity\<close> and \<open>NaN\<close> have no counterpart here: \<open>fl\<close> does not
  overflow.
\<close>

definition pow2 :: "int \<Rightarrow> rat" where
  "pow2 k = 2 powi k"

lemma floor_half_less: "1 \<le> (y::rat) \<Longrightarrow> \<lfloor>y / 2\<rfloor> < \<lfloor>y\<rfloor>"
proof -
  assume y: "1 \<le> y"
  then have f: "(1::rat) \<le> of_int \<lfloor>y\<rfloor>" by (simp add: le_floor_iff)
  have "y < of_int \<lfloor>y\<rfloor> + 1" by linarith
  with f have "y / 2 < of_int \<lfloor>y\<rfloor>" by linarith
  then show ?thesis by (simp only: floor_less_iff)
qed

function expo_up :: "rat \<Rightarrow> int" where
  "expo_up x = (if x < 2 then 0 else 1 + expo_up (x / 2))"
  by pat_completeness auto
termination
proof (relation "measure (\<lambda>x. nat \<lfloor>x\<rfloor>)")
  show "wf (measure (\<lambda>x::rat. nat \<lfloor>x\<rfloor>))" by simp
next
  fix x :: rat
  assume "\<not> x < 2"
  then have "1 \<le> x" by simp
  then have "\<lfloor>x / 2\<rfloor> < \<lfloor>x\<rfloor>" by (rule floor_half_less)
  moreover have "0 < \<lfloor>x\<rfloor>" using \<open>1 \<le> x\<close> by (simp add: less_floor_iff)
  ultimately show "(x / 2, x) \<in> measure (\<lambda>x. nat \<lfloor>x\<rfloor>)" by simp
qed

function expo_down :: "rat \<Rightarrow> int" where
  "expo_down x = (if x \<le> 0 \<or> 1 \<le> x then 0 else expo_down (2 * x) - 1)"
  by pat_completeness auto
termination
proof (relation "measure (\<lambda>x. nat \<lfloor>1 / x\<rfloor>)")
  show "wf (measure (\<lambda>x::rat. nat \<lfloor>1 / x\<rfloor>))" by simp
next
  fix x :: rat
  assume "\<not> (x \<le> 0 \<or> 1 \<le> x)"
  then have "1 \<le> 1 / x" by simp
  then have "\<lfloor>(1 / x) / 2\<rfloor> < \<lfloor>1 / x\<rfloor>" by (rule floor_half_less)
  then have "\<lfloor>1 / (2 * x)\<rfloor> < \<lfloor>1 / x\<rfloor>" by (simp add: mult.commute)
  moreover have "0 < \<lfloor>1 / x\<rfloor>" using \<open>1 \<le> 1 / x\<close> by (simp add: less_floor_iff)
  ultimately show "(2 * x, x) \<in> measure (\<lambda>x. nat \<lfloor>1 / x\<rfloor>)" by simp
qed

declare expo_up.simps [simp del] expo_down.simps [simp del]

definition expo :: "rat \<Rightarrow> int" where
  "expo x = (if 1 \<le> x then expo_up x else expo_down x)"

definition round_even :: "rat \<Rightarrow> int" where
  "round_even r =
     (let f = \<lfloor>r\<rfloor> in
      if r - of_int f < 1 / 2 then f
      else if 1 / 2 < r - of_int f then f + 1
      else if even f then f else f + 1)"

definition ulp :: "rat \<Rightarrow> rat" where
  "ulp x = pow2 (max (expo \<bar>x\<bar>) (- 1022) - 52)"

definition fl :: "rat \<Rightarrow> rat" where
  "fl x = (if x = 0 then 0 else sgn x * of_int (round_even (\<bar>x\<bar> / ulp x)) * ulp x)"

text \<open>The rationals that are doubles, and the operators \<open>/\<close>, \<open>*\<close> and \<open>+\<close> on numbers.\<close>

definition is_double :: "rat \<Rightarrow> bool" where
  "is_double x = (fl x = x)"

definition js_div :: "rat \<Rightarrow> rat \<Rightarrow> rat" where
  "js_div x y = fl (x / y)"

definition js_mul :: "rat \<Rightarrow> rat \<Rightarrow> rat" where
  "js_mul x y = fl (x * y)"

definition js_add :: "rat \<Rightarrow> rat \<Rightarrow> rat" where
  "js_add x y = fl (x + y)"

section \<open>components/WaveformComponent: generateWaveformData\<close>

text \<open>
  \<open>Math.random\<close> is the sequence \<open>random\<close> of its draws, the \<open>i\<close>-th call returning
  \<open>random i\<close>. \<open>fill\<close> is the \<open>for\<close> loop, from the counter \<open>i\<close> and the array \<open>data\<close>
  built so far. The literals \<open>0.1\<close> and \<open>0.8\<close> are the doubles nearest to one tenth and
  to eight tenths. A quotient past the range of the doubles would be \<open>Infinity\<close>, which
  \<open>Math.min(100, ...)\<close> takes to 100 as it does the large quotient here.
\<close>

function fill :: "int \<Rightarrow> int \<Rightarrow> (nat \<Rightarrow> rat) \<Rightarrow> rat list \<Rightarrow> rat list" where
  "fill i dataPoints random data =
     (if i < dataPoints
      then fill (i + 1) dataPoints random
             (data @ [js_add (js_mul (random (nat i)) (fl (8 / 10))) (fl (1 / 10))])
      else data)"
  by pat_completeness auto
termination
  by (relation "measure (\<lambda>(i, dataPoints, random, data). nat (dataPoints - i))") auto

declare fill.simps [simp del]

definition generateWaveformData :: "rat \<Rightarrow> (nat \<Rightarrow> rat) \<Rightarrow> rat list" where
  "generateWaveformData duration random =
     (let dataPoints = min 100 \<lfloor>js_div duration (fl (1 / 10))\<rfloor>
      in fill 0 dataPoints random [])"

text \<open>
  The number of amplitudes in the words of the specification: the smaller of 100 and the
  floor of \<open>d / 0.1\<close>, taken in exact arithmetic.
\<close>

definition claimed_dataPoints :: "rat \<Rightarrow> int" where
  "claimed_dataPoints d = min 100 \<lfloor>d / (1 / 10)\<rfloor>"

text \<open>The draws that are all one half.\<close>

definition half_draws :: "nat \<Rightarrow> rat" where
  "half_draws i = 1 / 2"

section \<open>Facts about the rounding\<close>

lemma pow2_pos: "0 < pow2 k" by (simp add: pow2_def)

lemma pow2_add: "pow2 (a + b) = pow2 a * pow2 b"
  by (simp add: pow2_def power_int_add)

lemma pow2_Suc: "pow2 (k + 1) = 2 * pow2 k"
  by (simp add: pow2_add) (simp add: pow2_def)

lemma pow2_mono: "a \<le> b \<Longrightarrow> pow2 a \<le> pow2 b"
  by (simp add: pow2_def power_int_increasing)

lemma pow2_strict_mono: "a < b \<Longrightarrow> pow2 a < pow2 b"
  by (simp add: pow2_def power_int_strict_increasing)

lemma pow2_less_iff: "pow2 a < pow2 b \<longleftrightarrow> a < b"
proof
  assume l: "pow2 a < pow2 b"
  show "a < b"
  proof (rule ccontr)
    assume "\<not> a < b"
    then have "pow2 b \<le> pow2 a" by (simp add: pow2_mono)
    with l show False by simp
  qed
qed (rule pow2_strict_mono)

lemma pow2_0: "pow2 0 = 1" by (simp add: pow2_def)

lemma expo_up_bounds: "1 \<le> x \<Longrightarrow> 0 \<le> expo_up x \<and> pow2 (expo_up x) \<le> x \<and> x < pow2 (expo_up x + 1)"
proof (induction x rule: expo_up.induct)
  case (1 x)
  show ?case
  proof (cases "x < 2")
    case True
    with 1(2) show ?thesis
      by (subst (1 2 3) expo_up.simps) (simp add: pow2_def)
  next
    case False
    then have "1 \<le> x / 2" by simp
    with 1(1)[OF False] have ih: "0 \<le> expo_up (x / 2)" "pow2 (expo_up (x / 2)) \<le> x / 2"
      "x / 2 < pow2 (expo_up (x / 2) + 1)" by simp_all
    have e: "expo_up x = expo_up (x / 2) + 1"
      using False by (subst expo_up.simps) simp
    have "pow2 (expo_up (x / 2) + 1 + 1) = 2 * pow2 (expo_up (x / 2) + 1)"
      by (rule pow2_Suc)
    with ih show ?thesis
      unfolding e by (simp add: pow2_Suc)
  qed
qed

lemma expo_down_bounds:
  "0 < x \<Longrightarrow> x < 1 \<Longrightarrow> expo_down x < 0 \<and> pow2 (expo_down x) \<le> x \<and> x < pow2 (expo_down x + 1)"
proof (induction x rule: expo_down.induct)
  case (1 x)
  have e: "expo_down x = expo_down (2 * x) - 1"
    using 1(2,3) by (subst expo_down.simps) simp
  show ?case
  proof (cases "1 \<le> 2 * x")
    case True
    then have "expo_down (2 * x) = 0" by (subst expo_down.simps) simp
    with e have "expo_down x = - 1" by simp
    with True 1(3) show ?thesis by (simp add: pow2_def)
  next
    case False
    with 1(2) have "\<not> (x \<le> 0 \<or> 1 \<le> x)" "0 < 2 * x" "2 * x < 1" by simp_all
    from 1(1)[OF this] have ih: "expo_down (2 * x) < 0" "pow2 (expo_down (2 * x)) \<le> 2 * x"
      "2 * x < pow2 (expo_down (2 * x) + 1)" by simp_all
    have "pow2 (expo_down (2 * x)) = 2 * pow2 (expo_down x)"
      using pow2_Suc[of "expo_down x"] by (simp add: e)
    moreover have "pow2 (expo_down (2 * x) + 1) = 2 * pow2 (expo_down x + 1)"
      using pow2_Suc[of "expo_down x + 1"] by (simp add: e)
    ultimately show ?thesis using ih e by simp
  qed
qed

lemma expo_bounds: "0 < x \<Longrightarrow> pow2 (expo x) \<le> x \<and> x < pow2 (expo x + 1)"
  using expo_up_bounds[of x] expo_down_bounds[of x] by (auto simp: expo_def)

lemma expo_unique:
  assumes "pow2 e \<le> x" and "x < pow2 (e + 1)"
  shows "expo x = e"
proof -
  have "0 < x" using assms(1) pow2_pos[of e] by simp
  then have b: "pow2 (expo x) \<le> x" "x < pow2 (expo x + 1)" using expo_bounds by simp_all
  from b(1) assms(2) have "pow2 (expo x) < pow2 (e + 1)" by simp
  then have "expo x < e + 1" by (simp only: pow2_less_iff)
  moreover from assms(1) b(2) have "pow2 e < pow2 (expo x + 1)" by simp
  then have "e < expo x + 1" by (simp only: pow2_less_iff)
  ultimately show ?thesis by simp
qed

lemma round_even_eqI:
  "of_int n - 1 / 2 < r \<Longrightarrow> r < of_int n + 1 / 2 \<Longrightarrow> round_even r = n"
proof -
  assume a: "of_int n - 1 / 2 < r" "r < of_int n + 1 / 2"
  show ?thesis
  proof (cases "of_int n \<le> r")
    case True
    with a have "\<lfloor>r\<rfloor> = n" by (simp add: floor_unique)
    with a show ?thesis by (simp add: round_even_def)
  next
    case False
    with a have "\<lfloor>r\<rfloor> = n - 1" by (simp add: floor_unique)
    with a show ?thesis by (simp add: round_even_def)
  qed
qed

lemma round_even_of_int: "round_even (of_int n) = n"
  by (rule round_even_eqI) simp_all

lemma round_even_range: "of_int \<lfloor>r\<rfloor> \<le> (of_int (round_even r) :: rat) \<and> round_even r \<le> \<lfloor>r\<rfloor> + 1"
  by (simp add: round_even_def Let_def)

lemma round_even_le: "r \<le> of_int n \<Longrightarrow> round_even r \<le> n"
proof -
  assume a: "r \<le> of_int n"
  show ?thesis
  proof (cases "r = of_int n")
    case True
    then show ?thesis by (simp add: round_even_of_int)
  next
    case False
    with a have "r < of_int n" by simp
    then have "\<lfloor>r\<rfloor> < n" by (simp add: floor_less_iff)
    with round_even_range[of r] show ?thesis by simp
  qed
qed

lemma round_even_ge: "of_int n \<le> r \<Longrightarrow> n \<le> round_even r"
proof -
  assume "of_int n \<le> r"
  then have "n \<le> \<lfloor>r\<rfloor>" by (simp add: le_floor_iff)
  with round_even_range[of r] show ?thesis by linarith
qed

lemma round_even_le_half: "r < of_int n + 1 / 2 \<Longrightarrow> round_even r \<le> n"
proof -
  assume a: "r < of_int n + 1 / 2"
  show ?thesis
  proof (cases "r < of_int n")
    case True
    then show ?thesis using round_even_le[of r n] by simp
  next
    case False
    with a have "\<lfloor>r\<rfloor> = n" by (simp add: floor_unique)
    with a show ?thesis by (simp add: round_even_def)
  qed
qed

lemma pow2_diff_52: "pow2 (e + 1) = pow2 53 * pow2 (e - 52)"
proof -
  have "pow2 (53 + (e - 52)) = pow2 53 * pow2 (e - 52)" by (rule pow2_add)
  then show ?thesis by (simp add: add.commute)
qed

lemma pow2_diff_52': "pow2 e = pow2 52 * pow2 (e - 52)"
proof -
  have "pow2 (52 + (e - 52)) = pow2 52 * pow2 (e - 52)" by (rule pow2_add)
  then show ?thesis by simp
qed

lemma pow2_53: "pow2 53 = of_int 9007199254740992" by (simp add: pow2_def)
lemma pow2_52: "pow2 52 = of_int 4503599627370496" by (simp add: pow2_def)

lemma ulp_normal:
  assumes "pow2 e \<le> x" and "x < pow2 (e + 1)" and "- 1022 \<le> e"
  shows "ulp x = pow2 (e - 52)"
proof -
  have "0 < x" using assms(1) pow2_pos[of e] by simp
  moreover have "expo x = e" using assms(1,2) by (rule expo_unique)
  ultimately show ?thesis using assms(3) by (simp add: ulp_def max_def)
qed

lemma fl_binade:
  assumes "pow2 e \<le> x" and "x < pow2 (e + 1)" and "- 1022 \<le> e"
  shows "fl x = of_int (round_even (x / pow2 (e - 52))) * pow2 (e - 52)"
proof -
  have "0 < x" using assms(1) pow2_pos[of e] by simp
  then show ?thesis by (simp add: fl_def ulp_normal[OF assms])
qed

lemma ulp_subnormal:
  assumes "0 < x" and "x < pow2 (- 1022)"
  shows "ulp x = pow2 (- 1074)"
proof -
  from assms(1) have "pow2 (expo x) \<le> x" using expo_bounds by simp
  with assms(2) have "pow2 (expo x) < pow2 (- 1022)" by simp
  then have "expo x < - 1022" by (simp only: pow2_less_iff)
  with assms(1) show ?thesis by (simp add: ulp_def max_def)
qed

lemma fl_subnormal:
  assumes "0 < x" and "x < pow2 (- 1022)"
  shows "fl x = of_int (round_even (x / pow2 (- 1074))) * pow2 (- 1074)"
  using assms(1) by (simp add: fl_def ulp_subnormal[OF assms])

lemma ulp_pos: "0 < ulp x" by (simp add: ulp_def pow2_pos)

lemma fl_nonneg: "0 \<le> x \<Longrightarrow> 0 \<le> fl x"
proof (cases "x = 0")
  case True
  then show ?thesis by (simp add: fl_def)
next
  case False
  assume "0 \<le> x"
  with False have x: "0 < x" by simp
  then have "(of_int 0 :: rat) \<le> \<bar>x\<bar> / ulp x" using ulp_pos[of x] by simp
  then have "0 \<le> round_even (\<bar>x\<bar> / ulp x)" by (rule round_even_ge)
  with x ulp_pos[of x] show ?thesis by (simp add: fl_def)
qed

lemma fl_le_pow2:
  assumes "0 \<le> x" and "x < pow2 k" and "- 1022 \<le> k"
  shows "fl x \<le> pow2 k"
proof (cases "x = 0")
  case True
  then show ?thesis using pow2_pos[of k] by (simp add: fl_def)
next
  case False
  with assms(1) have x: "0 < x" by simp
  show ?thesis
  proof (cases "x < pow2 (- 1022)")
    case True
    have "pow2 (- 1022) = pow2 52 * pow2 (- 1074)" using pow2_diff_52'[of "- 1022"] by simp
    with True have "x / pow2 (- 1074) < pow2 52"
      by (simp add: pos_divide_less_eq pow2_pos)
    then have "round_even (x / pow2 (- 1074)) \<le> 4503599627370496"
      using round_even_le[of "x / pow2 (- 1074)" 4503599627370496] by (simp add: pow2_52)
    then have "(of_int (round_even (x / pow2 (- 1074))) :: rat) \<le> pow2 52"
      unfolding pow2_52 by (simp only: of_int_le_iff)
    then have "fl x \<le> pow2 52 * pow2 (- 1074)"
      unfolding fl_subnormal[OF x True]
      by (rule mult_right_mono) (simp add: pow2_pos less_imp_le)
    also have "\<dots> = pow2 (- 1022)" using pow2_diff_52'[of "- 1022"] by simp
    also have "\<dots> \<le> pow2 k" using assms(3) by (rule pow2_mono)
    finally show ?thesis .
  next
    case False
    let ?e = "expo x"
    from x have b: "pow2 ?e \<le> x" "x < pow2 (?e + 1)" using expo_bounds by simp_all
    from False b(2) have "pow2 (- 1022) < pow2 (?e + 1)" by simp
    then have e: "- 1022 \<le> ?e" by (simp add: pow2_less_iff)
    from b(1) assms(2) have "pow2 ?e < pow2 k" by simp
    then have ek: "?e + 1 \<le> k" by (simp add: pow2_less_iff)
    from b(2) have "x / pow2 (?e - 52) < pow2 53"
      by (simp add: pos_divide_less_eq pow2_pos pow2_diff_52[of ?e])
    then have "round_even (x / pow2 (?e - 52)) \<le> 9007199254740992"
      using round_even_le[of "x / pow2 (?e - 52)" 9007199254740992] by (simp add: pow2_53)
    then have "(of_int (round_even (x / pow2 (?e - 52))) :: rat) \<le> pow2 53"
      unfolding pow2_53 by (simp only: of_int_le_iff)
    then have "fl x \<le> pow2 53 * pow2 (?e - 52)"
      unfolding fl_binade[OF b e]
      by (rule mult_right_mono) (simp add: pow2_pos less_imp_le)
    also have "\<dots> = pow2 (?e + 1)" by (simp add: pow2_diff_52[of ?e])
    also have "\<dots> \<le> pow2 k" using ek by (rule pow2_mono)
    finally show ?thesis .
  qed
qed

lemma fl_ge_pow2:
  assumes "pow2 k \<le> x" and "- 1022 \<le> k"
  shows "pow2 k \<le> fl x"
proof -
  let ?e = "expo x"
  have x: "0 < x" using assms(1) pow2_pos[of k] by simp
  then have b: "pow2 ?e \<le> x" "x < pow2 (?e + 1)" using expo_bounds by simp_all
  from assms(1) b(2) have "pow2 k < pow2 (?e + 1)" by simp
  then have ke: "k \<le> ?e" by (simp add: pow2_less_iff)
  with assms(2) have e: "- 1022 \<le> ?e" by simp
  from b(1) have "pow2 52 \<le> x / pow2 (?e - 52)"
    by (simp add: pos_le_divide_eq pow2_pos pow2_diff_52'[of ?e, symmetric])
  then have "4503599627370496 \<le> round_even (x / pow2 (?e - 52))"
    using round_even_ge[of 4503599627370496 "x / pow2 (?e - 52)"] by (simp add: pow2_52)
  then have "pow2 52 \<le> (of_int (round_even (x / pow2 (?e - 52))) :: rat)"
    unfolding pow2_52 by (simp only: of_int_le_iff)
  then have "pow2 52 * pow2 (?e - 52) \<le> fl x"
    unfolding fl_binade[OF b e]
    by (rule mult_right_mono) (simp add: pow2_pos less_imp_le)
  then have "pow2 ?e \<le> fl x" by (simp add: pow2_diff_52'[of ?e, symmetric])
  moreover have "pow2 k \<le> pow2 ?e" using ke by (rule pow2_mono)
  ultimately show ?thesis by simp
qed


section \<open>Facts about generateWaveformData\<close>

lemma fill_eq:
  "0 \<le> i \<Longrightarrow> fill i n random data =
     data @ map (\<lambda>k. js_add (js_mul (random k) (fl (8 / 10))) (fl (1 / 10))) [nat i..<nat n]"
proof (induction i n random data rule: fill.induct)
  case (1 i n random data)
  show ?case
  proof (cases "i < n")
    case True
    with 1(2) have u: "[nat i..<nat n] = nat i # [nat (i + 1)..<nat n]"
      by (simp add: upt_conv_Cons nat_add_distrib)
    from 1(1)[OF True] 1(2) True show ?thesis
      by (subst fill.simps) (simp add: u)
  next
    case False
    then show ?thesis by (subst fill.simps) simp
  qed
qed

lemma generateWaveformData_map:
  "generateWaveformData d random =
     map (\<lambda>k. js_add (js_mul (random k) (fl (8 / 10))) (fl (1 / 10)))
       [0..<nat (min 100 \<lfloor>js_div d (fl (1 / 10))\<rfloor>)]"
  by (simp add: generateWaveformData_def Let_def fill_eq)

lemma fl_tenth: "fl (1 / 10) = 3602879701896397 / 36028797018963968"
proof -
  have "pow2 (- 4) \<le> (1 / 10 :: rat)" "(1 / 10 :: rat) < pow2 (- 4 + 1)" by (simp_all add: pow2_def)
  then have "fl (1 / 10) = of_int (round_even ((1 / 10) / pow2 (- 4 - 52))) * pow2 (- 4 - 52)"
    by (rule fl_binade) simp
  moreover have "round_even ((1 / 10) / pow2 (- 4 - 52)) = 7205759403792794"
    by (rule round_even_eqI) (simp_all add: pow2_def)
  ultimately show ?thesis by (simp add: pow2_def)
qed

lemma fl_eight_tenths: "fl (8 / 10) = 3602879701896397 / 4503599627370496"
proof -
  have "pow2 (- 1) \<le> (8 / 10 :: rat)" "(8 / 10 :: rat) < pow2 (- 1 + 1)" by (simp_all add: pow2_def)
  then have "fl (8 / 10) = of_int (round_even ((8 / 10) / pow2 (- 1 - 52))) * pow2 (- 1 - 52)"
    by (rule fl_binade) simp
  moreover have "round_even ((8 / 10) / pow2 (- 1 - 52)) = 7205759403792794"
    by (rule round_even_eqI) (simp_all add: pow2_def)
  ultimately show ?thesis by (simp add: pow2_def)
qed

lemma fl_half_to_one:
  assumes "1 / 2 \<le> x" and "x < 1"
  shows "fl x = of_int (round_even (x * 9007199254740992)) / 9007199254740992"
proof -
  have "pow2 (- 1) \<le> x" "x < pow2 (- 1 + 1)" using assms by (simp_all add: pow2_def)
  then have "fl x = of_int (round_even (x / pow2 (- 1 - 52))) * pow2 (- 1 - 52)"
    by (rule fl_binade) simp
  then show ?thesis by (simp add: pow2_def)
qed

lemma fl_sixteenth_to_eighth:
  assumes "1 / 16 \<le> x" and "x < 1 / 8"
  shows "fl x = of_int (round_even (x * 72057594037927936)) / 72057594037927936"
proof -
  have "pow2 (- 4) \<le> x" "x < pow2 (- 4 + 1)" using assms by (simp_all add: pow2_def)
  then have "fl x = of_int (round_even (x / pow2 (- 4 - 52))) * pow2 (- 4 - 52)"
    by (rule fl_binade) simp
  then show ?thesis by (simp add: pow2_def)
qed

lemma fl_below_half: "0 \<le> x \<Longrightarrow> x < 1 / 2 \<Longrightarrow> fl x \<le> 1 / 2"
  using fl_le_pow2[of x "- 1"] by (simp add: pow2_def)

lemma double_below_one:
  assumes "is_double u" and "u < 1"
  shows "u \<le> 9007199254740991 / 9007199254740992"
proof (cases "u < 1 / 2")
  case True
  then show ?thesis by simp
next
  case False
  then have h: "1 / 2 \<le> u" by simp
  let ?m = "round_even (u * 9007199254740992)"
  from assms(1) have u: "u = of_int ?m / 9007199254740992"
    using fl_half_to_one[OF h assms(2)] by (simp add: is_double_def)
  with assms(2) have "(of_int ?m :: rat) < of_int 9007199254740992" by simp
  then have "?m < 9007199254740992" by (simp only: of_int_less_iff)
  then have "?m \<le> 9007199254740991" by simp
  then have "(of_int ?m :: rat) \<le> of_int 9007199254740991" by (simp only: of_int_le_iff)
  then have "(of_int ?m :: rat) / 9007199254740992 \<le> 9007199254740991 / 9007199254740992"
    by (simp add: divide_right_mono)
  with u show ?thesis by simp
qed

lemma double_below_tenth:
  assumes "is_double d" and "d < 1 / 10"
  shows "d \<le> 7205759403792793 / 72057594037927936"
proof (cases "d < 1 / 16")
  case True
  then show ?thesis by simp
next
  case False
  then have h: "1 / 16 \<le> d" and h': "d < 1 / 8" using assms(2) by simp_all
  let ?m = "round_even (d * 72057594037927936)"
  from assms(1) have d: "d = of_int ?m / 72057594037927936"
    using fl_sixteenth_to_eighth[OF h h'] by (simp add: is_double_def)
  with assms(2) have "(of_int ?m :: rat) * 10 < 72057594037927936" by simp
  then have "(of_int (?m * 10) :: rat) < of_int 72057594037927936" by simp
  then have "?m * 10 < 72057594037927936" by (simp only: of_int_less_iff)
  then have "?m \<le> 7205759403792793" by simp
  then have "(of_int ?m :: rat) \<le> of_int 7205759403792793" by (simp only: of_int_le_iff)
  then have "(of_int ?m :: rat) / 72057594037927936 \<le> 7205759403792793 / 72057594037927936"
    by (simp add: divide_right_mono)
  with d show ?thesis by simp
qed

text \<open>The quotient of a double below one tenth by the double 0.1 rounds below 1.\<close>

lemma quotient_below_one:
  assumes "0 \<le> d" and "is_double d" and "d < 1 / 10"
  shows "0 \<le> js_div d (fl (1 / 10)) \<and> js_div d (fl (1 / 10)) < 1"
proof -
  let ?q = "d / (3602879701896397 / 36028797018963968)"
  from assms(2,3) have "d \<le> 7205759403792793 / 72057594037927936" by (rule double_below_tenth)
  then have q: "?q \<le> 7205759403792793 / 7205759403792794" by simp
  have q0: "0 \<le> ?q" using assms(1) by simp
  have "fl ?q < 1"
  proof (cases "?q < 1 / 2")
    case True
    with q0 have "fl ?q \<le> 1 / 2" by (rule fl_below_half)
    then show ?thesis by simp
  next
    case False
    then have h: "1 / 2 \<le> ?q" by simp
    from q have h': "?q < 1" by simp
    from q have "?q * 9007199254740992 < of_int 9007199254740991 + 1 / 2" by simp
    then have "round_even (?q * 9007199254740992) \<le> 9007199254740991"
      by (rule round_even_le_half)
    then have "(of_int (round_even (?q * 9007199254740992)) :: rat) \<le> of_int 9007199254740991"
      by (simp only: of_int_le_iff)
    then have "fl ?q \<le> 9007199254740991 / 9007199254740992"
      unfolding fl_half_to_one[OF h h'] by (simp add: divide_right_mono)
    then show ?thesis by simp
  qed
  moreover have "0 \<le> fl ?q" using q0 by (rule fl_nonneg)
  ultimately show ?thesis unfolding js_div_def fl_tenth by simp
qed

text \<open>An amplitude \<open>Math.random() * 0.8 + 0.1\<close> for a draw that is a double in [0, 1).\<close>

lemma amplitude_range:
  assumes "is_double u" and "0 \<le> u" and "u < 1"
  shows "1 / 10 \<le> js_add (js_mul u (fl (8 / 10))) (fl (1 / 10)) \<and>
         js_add (js_mul u (fl (8 / 10))) (fl (1 / 10)) < 9 / 10"
proof -
  let ?c8 = "3602879701896397 / 4503599627370496 :: rat"
  let ?c1 = "3602879701896397 / 36028797018963968 :: rat"
  let ?p = "u * ?c8"
  from assms(1,3) have u: "u \<le> 9007199254740991 / 9007199254740992" by (rule double_below_one)
  have p0: "0 \<le> ?p" using assms(2) by simp
  from u have "?p \<le> (9007199254740991 / 9007199254740992) * ?c8"
    by (rule mult_right_mono) simp
  then have p: "?p \<le> 9007199254740991 * 3602879701896397 / (9007199254740992 * 4503599627370496)"
    by simp
  have flp0: "0 \<le> fl ?p" using p0 by (rule fl_nonneg)
  have flp: "fl ?p \<le> 7205759403792793 / 9007199254740992"
  proof (cases "?p < 1 / 2")
    case True
    with p0 have "fl ?p \<le> 1 / 2" by (rule fl_below_half)
    then show ?thesis by simp
  next
    case False
    then have h: "1 / 2 \<le> ?p" by simp
    from p have h': "?p < 1" by simp
    from p have "?p * 9007199254740992 < of_int 7205759403792793 + 1 / 2" by simp
    then have "round_even (?p * 9007199254740992) \<le> 7205759403792793"
      by (rule round_even_le_half)
    then have "(of_int (round_even (?p * 9007199254740992)) :: rat) \<le> of_int 7205759403792793"
      by (simp only: of_int_le_iff)
    then show ?thesis
      unfolding fl_half_to_one[OF h h'] by (simp add: divide_right_mono)
  qed
  let ?s = "fl ?p + ?c1"
  from flp0 have s0: "?c1 \<le> ?s" by simp
  from flp have s: "?s \<le> 32425917317067569 / 36028797018963968" by simp
  have upper: "fl ?s < 9 / 10"
  proof (cases "?s < 1 / 2")
    case True
    moreover from s0 have "0 \<le> ?s" by simp
    ultimately have "fl ?s \<le> 1 / 2" by (rule fl_below_half[rotated])
    then show ?thesis by simp
  next
    case False
    then have h: "1 / 2 \<le> ?s" by simp
    from s have h': "?s < 1" by simp
    from s have "?s * 9007199254740992 < of_int 8106479329266892 + 1 / 2" by simp
    then have "round_even (?s * 9007199254740992) \<le> 8106479329266892"
      by (rule round_even_le_half)
    then have "(of_int (round_even (?s * 9007199254740992)) :: rat) \<le> of_int 8106479329266892"
      by (simp only: of_int_le_iff)
    then have "fl ?s \<le> 8106479329266892 / 9007199254740992"
      unfolding fl_half_to_one[OF h h'] by (simp add: divide_right_mono)
    then show ?thesis by simp
  qed
  have lower: "1 / 10 \<le> fl ?s"
  proof (cases "?s < 1 / 8")
    case True
    from s0 have h: "1 / 16 \<le> ?s" by simp
    from s0 have "of_int 7205759403792794 \<le> ?s * 72057594037927936" by simp
    then have "7205759403792794 \<le> round_even (?s * 72057594037927936)"
      by (rule round_even_ge)
    then have "(of_int 7205759403792794 :: rat) \<le> of_int (round_even (?s * 72057594037927936))"
      by (simp only: of_int_le_iff)
    then have "7205759403792794 / 72057594037927936 \<le> fl ?s"
      unfolding fl_sixteenth_to_eighth[OF h True] by (simp add: divide_right_mono)
    then show ?thesis by simp
  next
    case False
    then have "pow2 (- 3) \<le> ?s" by (simp add: pow2_def)
    then have "pow2 (- 3) \<le> fl ?s" by (rule fl_ge_pow2) simp
    then show ?thesis by (simp add: pow2_def)
  qed
  from lower upper show ?thesis
    unfolding js_add_def js_mul_def fl_tenth fl_eight_tenths by simp
qed

lemma fl_eval:
  assumes "pow2 e \<le> x" and "x < pow2 (e + 1)" and "- 1022 \<le> e"
    and "of_int n - 1 / 2 < x / pow2 (e - 52)" and "x / pow2 (e - 52) < of_int n + 1 / 2"
  shows "fl x = of_int n * pow2 (e - 52)"
  using fl_binade[OF assms(1-3)] round_even_eqI[OF assms(4,5)] by simp

lemma fl_three_tenths: "fl (300 / 1000) = 5404319552844595 / 18014398509481984"
proof -
  have "fl (300 / 1000) = of_int 5404319552844595 * pow2 (- 2 - 52)"
    by (rule fl_eval) (simp_all add: pow2_def)
  then show ?thesis by (simp add: pow2_def)
qed

lemma fl_fl_three_tenths:
  "fl (5404319552844595 / 18014398509481984) = 5404319552844595 / 18014398509481984"
proof -
  have "fl (5404319552844595 / 18014398509481984) = of_int 5404319552844595 * pow2 (- 2 - 52)"
    by (rule fl_eval) (simp_all add: pow2_def)
  then show ?thesis by (simp add: pow2_def)
qed

lemma quotient_three_tenths:
  "fl ((5404319552844595 / 18014398509481984) / (3602879701896397 / 36028797018963968)) =
     6755399441055743 / 2251799813685248"
proof -
  have "fl ((5404319552844595 / 18014398509481984) / (3602879701896397 / 36028797018963968)) =
      of_int 6755399441055743 * pow2 (1 - 52)"
    by (rule fl_eval) (simp_all add: pow2_def)
  then show ?thesis by (simp add: pow2_def)
qed

lemma fl_one_twentieth: "fl (50 / 1000) = 3602879701896397 / 72057594037927936"
proof -
  have "fl (50 / 1000) = of_int 7205759403792794 * pow2 (- 5 - 52)"
    by (rule fl_eval) (simp_all add: pow2_def)
  then show ?thesis by (simp add: pow2_def)
qed

lemma fl_fl_one_twentieth:
  "fl (3602879701896397 / 72057594037927936) = 3602879701896397 / 72057594037927936"
proof -
  have "fl (3602879701896397 / 72057594037927936) = of_int 7205759403792794 * pow2 (- 5 - 52)"
    by (rule fl_eval) (simp_all add: pow2_def)
  then show ?thesis by (simp add: pow2_def)
qed

lemma fl_one_half: "fl (1 / 2) = 1 / 2"
proof -
  have "fl (1 / 2) = of_int 4503599627370496 * pow2 (- 1 - 52)"
    by (rule fl_eval) (simp_all add: pow2_def)
  then show ?thesis by (simp add: pow2_def)
qed

lemma amplitude_of_one_half:
  "js_add (js_mul (1 / 2) (fl (8 / 10))) (fl (1 / 10)) = 1 / 2"
proof -
  have p: "fl (1 / 2 * (3602879701896397 / 4503599627370496)) =
      3602879701896397 / 9007199254740992"
  proof -
    have "fl (1 / 2 * (3602879701896397 / 4503599627370496)) =
        of_int 7205759403792794 * pow2 (- 2 - 52)"
      by (rule fl_eval) (simp_all add: pow2_def)
    then show ?thesis by (simp add: pow2_def)
  qed
  have s: "fl (3602879701896397 / 9007199254740992 + 3602879701896397 / 36028797018963968) =
      1 / 2"
  proof -
    have "fl (3602879701896397 / 9007199254740992 + 3602879701896397 / 36028797018963968) =
        of_int 4503599627370496 * pow2 (- 1 - 52)"
      by (rule fl_eval) (simp_all add: pow2_def)
    then show ?thesis by (simp add: pow2_def)
  qed
  show ?thesis
    unfolding js_add_def js_mul_def fl_tenth fl_eight_tenths p s ..
qed

lemma fl_nonpos: "x \<le> 0 \<Longrightarrow> fl x \<le> 0"
proof (cases "x = 0")
  case True
  then show ?thesis by (simp add: fl_def)
next
  case False
  assume "x \<le> 0"
  with False have x: "x < 0" by simp
  have "(of_int 0 :: rat) \<le> \<bar>x\<bar> / ulp x" using ulp_pos[of x] by simp
  then have "0 \<le> round_even (\<bar>x\<bar> / ulp x)" by (rule round_even_ge)
  then have "0 \<le> (of_int (round_even (\<bar>x\<bar> / ulp x)) :: rat) * ulp x"
    using ulp_pos[of x] by simp
  with x show ?thesis by (simp add: fl_def)
qed

text \<open>No double lies between one tenth and the double 0.1, which is above one tenth.\<close>

lemma double_ge_tenth:
  assumes "is_double d" and "1 / 10 \<le> d"
  shows "fl (1 / 10) \<le> d"
proof (cases "d < 1 / 8")
  case True
  from assms(2) have h: "1 / 16 \<le> d" by simp
  let ?m = "round_even (d * 72057594037927936)"
  from assms(1) have d: "d = of_int ?m / 72057594037927936"
    using fl_sixteenth_to_eighth[OF h True] by (simp add: is_double_def)
  with assms(2) have "72057594037927936 \<le> (of_int ?m :: rat) * 10" by simp
  then have "(of_int 72057594037927936 :: rat) \<le> of_int (?m * 10)" by simp
  then have "72057594037927936 \<le> ?m * 10" by (simp only: of_int_le_iff)
  then have "7205759403792794 \<le> ?m" by simp
  then have "(of_int 7205759403792794 :: rat) \<le> of_int ?m" by (simp only: of_int_le_iff)
  then have "7205759403792794 / 72057594037927936 \<le> (of_int ?m :: rat) / 72057594037927936"
    by (simp add: divide_right_mono)
  with d have "7205759403792794 / 72057594037927936 \<le> d" by simp
  then show ?thesis unfolding fl_tenth by simp
next
  case False
  then show ?thesis unfolding fl_tenth by simp
qed

lemma quotient_ge_one:
  assumes "is_double d" and "1 / 10 \<le> d"
  shows "1 \<le> js_div d (fl (1 / 10))"
proof -
  from assms have "fl (1 / 10) \<le> d" by (rule double_ge_tenth)
  then have "pow2 0 \<le> d / fl (1 / 10)" unfolding fl_tenth by (simp add: pow2_0)
  then have "pow2 0 \<le> fl (d / fl (1 / 10))" by (rule fl_ge_pow2) simp
  then show ?thesis by (simp add: js_div_def pow2_0)
qed

lemma quotient_nonpos: "d \<le> 0 \<Longrightarrow> js_div d (fl (1 / 10)) \<le> 0"
proof -
  assume "d \<le> 0"
  then have "d / fl (1 / 10) \<le> 0" unfolding fl_tenth by simp
  then show ?thesis unfolding js_div_def by (rule fl_nonpos)
qed

lemma fl_seventeen_tenths: "fl (1700 / 1000) = 7656119366529843 / 4503599627370496"
proof -
  have "fl (1700 / 1000) = of_int 7656119366529843 * pow2 (0 - 52)"
    by (rule fl_eval) (simp_all add: pow2_def)
  then show ?thesis by (simp add: pow2_def)
qed

lemma fl_fl_seventeen_tenths:
  "fl (7656119366529843 / 4503599627370496) = 7656119366529843 / 4503599627370496"
proof -
  have "fl (7656119366529843 / 4503599627370496) = of_int 7656119366529843 * pow2 (0 - 52)"
    by (rule fl_eval) (simp_all add: pow2_def)
  then show ?thesis by (simp add: pow2_def)
qed

lemma quotient_seventeen_tenths:
  "fl ((7656119366529843 / 4503599627370496) / (3602879701896397 / 36028797018963968)) = 17"
proof -
  have "fl ((7656119366529843 / 4503599627370496) / (3602879701896397 / 36028797018963968)) =
      of_int 4785074604081152 * pow2 (4 - 52)"
    by (rule fl_eval) (simp_all add: pow2_def)
  then show ?thesis by (simp add: pow2_def)
qed

section \<open>The waveform\<close>

text \<open>
  Claim C10, as the code has it. Let the duration \<open>d\<close> be a double and let every draw of
  \<open>Math.random\<close> be a double in the interval from 0 up to, not including, 1. Then
  \<open>generateWaveformData d\<close> returns the amplitudes \<open>random k * 0.8 + 0.1\<close> of the first
  draws, as many as the smaller of 100 and the floor of the quotient \<open>d / 0.1\<close> of
  doubles (none when that is negative); every amplitude is at least one tenth and
  less than nine tenths; and the result is empty exactly when \<open>d\<close> is less than one
  tenth.
\<close>

theorem generateWaveformData_count_and_range:
  assumes "is_double d"
    and "\<forall>i. is_double (random i) \<and> 0 \<le> random i \<and> random i < 1"
  shows "generateWaveformData d random =
           map (\<lambda>k. js_add (js_mul (random k) (fl (8 / 10))) (fl (1 / 10)))
             [0..<nat (min 100 \<lfloor>js_div d (fl (1 / 10))\<rfloor>)]
       \<and> int (length (generateWaveformData d random)) =
           max 0 (min 100 \<lfloor>js_div d (fl (1 / 10))\<rfloor>)
       \<and> (\<forall>a \<in> set (generateWaveformData d random). 1 / 10 \<le> a \<and> a < 9 / 10)
       \<and> (generateWaveformData d random = [] \<longleftrightarrow> d < 1 / 10)"
proof -
  have m: "generateWaveformData d random =
           map (\<lambda>k. js_add (js_mul (random k) (fl (8 / 10))) (fl (1 / 10)))
             [0..<nat (min 100 \<lfloor>js_div d (fl (1 / 10))\<rfloor>)]"
    by (rule generateWaveformData_map)
  have count: "int (length (generateWaveformData d random)) =
      max 0 (min 100 \<lfloor>js_div d (fl (1 / 10))\<rfloor>)"
    by (simp add: m)
  have range: "\<forall>a \<in> set (generateWaveformData d random). 1 / 10 \<le> a \<and> a < 9 / 10"
  proof
    fix a
    assume "a \<in> set (generateWaveformData d random)"
    then obtain k where "a = js_add (js_mul (random k) (fl (8 / 10))) (fl (1 / 10))"
      unfolding m by auto
    moreover from assms(2) have "is_double (random k)" "0 \<le> random k" "random k < 1"
      by simp_all
    ultimately show "1 / 10 \<le> a \<and> a < 9 / 10" using amplitude_range by simp
  qed
  have none: "generateWaveformData d random = []" if "d < 1 / 10"
  proof (cases "0 \<le> d")
    case True
    from True assms(1) that have "0 \<le> js_div d (fl (1 / 10)) \<and> js_div d (fl (1 / 10)) < 1"
      by (rule quotient_below_one)
    then have "\<lfloor>js_div d (fl (1 / 10))\<rfloor> = 0" by (simp add: floor_unique)
    then show ?thesis by (simp add: m)
  next
    case False
    then have "js_div d (fl (1 / 10)) \<le> 0" by (simp add: quotient_nonpos)
    then have "\<lfloor>js_div d (fl (1 / 10))\<rfloor> \<le> 0" by (simp add: floor_le_iff)
    then show ?thesis by (simp add: m)
  qed
  have some: "generateWaveformData d random \<noteq> []" if "\<not> d < 1 / 10"
  proof -
    from that have "1 / 10 \<le> d" by simp
    with assms(1) have "1 \<le> js_div d (fl (1 / 10))" by (rule quotient_ge_one)
    then have "1 \<le> \<lfloor>js_div d (fl (1 / 10))\<rfloor>" by (simp add: le_floor_iff)
    then have "0 < nat (min 100 \<lfloor>js_div d (fl (1 / 10))\<rfloor>)" by arith
    then obtain j where j: "nat (min 100 \<lfloor>js_div d (fl (1 / 10))\<rfloor>) = Suc j"
      using gr0_implies_Suc by blast
    show ?thesis unfolding m j by simp
  qed
  from none some have empty: "generateWaveformData d random = [] \<longleftrightarrow> d < 1 / 10" by blast
  from m count range empty show ?thesis by (intro conjI)
qed

text \<open>
  A recording of 300 ms and one of 50 ms, as the review screen passes them
  (\<open>audioDuration / 1000\<close>), with every draw one half.
\<close>

theorem generateWaveformData_count_and_range_witness:
  "is_double (js_div 300 1000)
   \<and> (\<forall>i. is_double (half_draws i) \<and> 0 \<le> half_draws i \<and> half_draws i < 1)
   \<and> \<lfloor>js_div (js_div 300 1000) (fl (1 / 10))\<rfloor> = 2
   \<and> generateWaveformData (js_div 300 1000) half_draws = [1 / 2, 1 / 2]
   \<and> is_double (js_div 50 1000) \<and> js_div 50 1000 < 1 / 10
   \<and> generateWaveformData (js_div 50 1000) half_draws = []"
proof -
  have d: "js_div 300 1000 = 5404319552844595 / 18014398509481984"
    by (simp only: js_div_def fl_three_tenths)
  have dd: "is_double (js_div 300 1000)" by (simp add: is_double_def d fl_fl_three_tenths)
  have r: "\<forall>i. is_double (half_draws i) \<and> 0 \<le> half_draws i \<and> half_draws i < 1"
    by (simp add: half_draws_def is_double_def fl_one_half)
  have q: "\<lfloor>js_div (js_div 300 1000) (fl (1 / 10))\<rfloor> = 2"
    unfolding js_div_def fl_three_tenths fl_tenth quotient_three_tenths
    by (simp add: floor_unique)
  have two: "[0..<nat (min 100 2)] = [0, 1]" by (simp add: upt_conv_Cons)
  from generateWaveformData_count_and_range[OF dd r]
  have "generateWaveformData (js_div 300 1000) half_draws =
      map (\<lambda>k. js_add (js_mul (half_draws k) (fl (8 / 10))) (fl (1 / 10)))
        [0..<nat (min 100 \<lfloor>js_div (js_div 300 1000) (fl (1 / 10))\<rfloor>)]"
    by (rule conjunct1)
  then have w: "generateWaveformData (js_div 300 1000) half_draws = [1 / 2, 1 / 2]"
    unfolding q two half_draws_def amplitude_of_one_half by simp
  have e: "js_div 50 1000 = 3602879701896397 / 72057594037927936"
    by (simp only: js_div_def fl_one_twentieth)
  have e0: "js_div 50 1000 < 1 / 10" by (simp add: e)
  have ed: "is_double (js_div 50 1000)" by (simp add: is_double_def e fl_fl_one_twentieth)
  from generateWaveformData_count_and_range[OF ed r] e0
  have v: "generateWaveformData (js_div 50 1000) half_draws = []" by blast
  from dd r q w ed e0 v show ?thesis by (intro conjI)
qed

text \<open>
  Claim C10 as stated, that the number of amplitudes is the smaller of 100 and the floor
  of \<open>d / 0.1\<close>, fails for a recording of 300 ms: the duration is 0.3 s, for which the
  claim gives 3 amplitudes, and \<open>generateWaveformData(300 / 1000)\<close> returns 2, the
  quotient of the doubles 0.3 and 0.1 being the double below 3. It fails in the other
  direction for the double \<open>1700 / 1000\<close>: that number is below seventeen tenths, so
  that the claim gives 16 amplitudes for it, and \<open>generateWaveformData\<close> returns 17,
  its quotient by the double 0.1 rounding to 17.
\<close>

theorem generateWaveformData_three_tenths_gives_two:
  "length (generateWaveformData (js_div 300 1000) half_draws) = 2
   \<and> claimed_dataPoints (300 / 1000) = 3
   \<and> is_double (js_div 1700 1000)
   \<and> length (generateWaveformData (js_div 1700 1000) half_draws) = 17
   \<and> claimed_dataPoints (js_div 1700 1000) = 16"
proof -
  have q: "\<lfloor>js_div (js_div 300 1000) (fl (1 / 10))\<rfloor> = 2"
    unfolding js_div_def fl_three_tenths fl_tenth quotient_three_tenths
    by (simp add: floor_unique)
  have a: "length (generateWaveformData (js_div 300 1000) half_draws) = 2"
    by (simp add: generateWaveformData_map q)
  have b: "claimed_dataPoints (300 / 1000) = 3"
    by (simp add: claimed_dataPoints_def)
  have d: "js_div 1700 1000 = 7656119366529843 / 4503599627370496"
    by (simp only: js_div_def fl_seventeen_tenths)
  have c: "is_double (js_div 1700 1000)"
    by (simp add: is_double_def d fl_fl_seventeen_tenths)
  have q17: "\<lfloor>js_div (js_div 1700 1000) (fl (1 / 10))\<rfloor> = 17"
    unfolding js_div_def fl_seventeen_tenths fl_tenth quotient_seventeen_tenths by simp
  have e: "length (generateWaveformData (js_div 1700 1000) half_draws) = 17"
    by (simp add: generateWaveformData_map q17)
  have f: "claimed_dataPoints (js_div 1700 1000) = 16"
    unfolding d claimed_dataPoints_def by (simp add: floor_unique)
  from a b c e f show ?thesis by (intro conjI)
qed

end
